theory Spec2Isabelle
  imports Complex_Main "HOL-Library.Multiset" "HOL-Library.Sublist" "HOL-Library.Word"
begin

section \<open>Python strings and JSON values (the json module as database.py uses it)\<close>

text \<open>
  A Python \<^verbatim>\<open>str\<close> is a sequence of Unicode code points and is modelled as a list of
  natural numbers. \<open>ascii\<close> turns an ASCII literal into such a sequence. The values that
  \<^verbatim>\<open>json.dumps\<close> accepts are modelled by \<open>pyval\<close>: \<^verbatim>\<open>None\<close>, booleans, integers, floats,
  strings, lists and dictionaries (insertion-ordered, keys strings or integers).

  A float is a finite number, one of the two infinities, or a NaN. The conversions between
  finite floats and text are the interpreter's \<^verbatim>\<open>float.__repr__\<close> and \<^verbatim>\<open>float()\<close>; they are
  parameters of the model: \<open>json_dumps\<close> takes the first (\<open>float_repr\<close>) and \<open>json_loads\<close> the
  second (\<open>parse_float\<close>, which may answer an infinity for a text with a large exponent).

  \<open>json_dumps\<close> follows \<^verbatim>\<open>json.dumps\<close> with its default arguments (\<^verbatim>\<open>ensure_ascii=True\<close>,
  \<^verbatim>\<open>allow_nan=True\<close>, separators \<^verbatim>\<open>", "\<close> and \<^verbatim>\<open>": "\<close>, integer keys written as strings);
  \<open>json_loads\<close> follows \<^verbatim>\<open>json.loads\<close>, with \<open>None\<close> for \<^verbatim>\<open>JSONDecodeError\<close>. The recursion of
  the decoder over nested values is bounded by the length of the text.
\<close>

type_synonym pystr = "nat list"

definition ascii :: "string \<Rightarrow> pystr" where
  "ascii s = map of_char s"

datatype pykey = KStr pystr | KInt int

datatype pyfloat = Finite real | PosInf | NegInf | NaN

datatype pyval =
    PyNone
  | PyBool bool
  | PyInt int
  | PyFloat pyfloat
  | PyStr pystr
  | PyList "pyval list"
  | PyDict "(pykey \<times> pyval) list"

abbreviation BSL :: nat where "BSL \<equiv> 0x5C"
abbreviation DQ :: nat where "DQ \<equiv> 0x22"

definition hex_digit :: "nat \<Rightarrow> nat" where
  "hex_digit n = (let d = n mod 16 in if d < 10 then 48 + d else 87 + d)"

definition hex4 :: "nat \<Rightarrow> pystr" where
  "hex4 n = [hex_digit (n div 4096), hex_digit (n div 256), hex_digit (n div 16), hex_digit n]"

definition u_escape :: "nat \<Rightarrow> pystr" where
  "u_escape n = BSL # 0x75 # hex4 n"

definition escape_char :: "nat \<Rightarrow> pystr" where
  "escape_char c =
     (if c = 0x5C then [BSL, BSL]
      else if c = 0x22 then [BSL, DQ]
      else if c = 0x08 then [BSL, 0x62]
      else if c = 0x0C then [BSL, 0x66]
      else if c = 0x0A then [BSL, 0x6E]
      else if c = 0x0D then [BSL, 0x72]
      else if c = 0x09 then [BSL, 0x74]
      else if 0x20 \<le> c \<and> c \<le> 0x7E then [c]
      else if c < 0x10000 then u_escape c
      else u_escape (0xD800 + ((c - 0x10000) div 1024) mod 1024)
           @ u_escape (0xDC00 + (c - 0x10000) mod 1024))"

definition encode_basestring_ascii :: "pystr \<Rightarrow> pystr" where
  "encode_basestring_ascii s = DQ # concat (map escape_char s) @ [DQ]"

function int_digits :: "nat \<Rightarrow> pystr" where
  "int_digits n = (if n < 10 then [48 + n] else int_digits (n div 10) @ [48 + n mod 10])"
  by pat_completeness auto
termination
  by (relation "measure id") auto

declare int_digits.simps [simp del]

definition int_repr :: "int \<Rightarrow> pystr" where
  "int_repr i = (if i < 0 then 0x2D # int_digits (nat (- i)) else int_digits (nat i))"

fun join :: "pystr \<Rightarrow> pystr list \<Rightarrow> pystr" where
  "join sep [] = []"
| "join sep [x] = x"
| "join sep (x # y # ys) = x @ sep @ join sep (y # ys)"

definition key_str :: "pykey \<Rightarrow> pystr" where
  "key_str k = (case k of KStr s \<Rightarrow> s | KInt i \<Rightarrow> int_repr i)"

definition dumps_item :: "pykey \<times> pystr \<Rightarrow> pystr" where
  "dumps_item kv = encode_basestring_ascii (key_str (fst kv)) @ ascii '': '' @ snd kv"

definition floatstr :: "(real \<Rightarrow> pystr) \<Rightarrow> pyfloat \<Rightarrow> pystr" where
  \<comment> \<open>\<^verbatim>\<open>floatstr\<close> of \<^verbatim>\<open>json.encoder\<close>\<close>
  "floatstr float_repr x =
     (case x of
        NaN \<Rightarrow> ascii ''NaN''
      | PosInf \<Rightarrow> ascii ''Infinity''
      | NegInf \<Rightarrow> ascii ''-Infinity''
      | Finite r \<Rightarrow> float_repr r)"

primrec json_dumps :: "(real \<Rightarrow> pystr) \<Rightarrow> pyval \<Rightarrow> pystr" where
  "json_dumps float_repr PyNone = ascii ''null''"
| "json_dumps float_repr (PyBool b) = (if b then ascii ''true'' else ascii ''false'')"
| "json_dumps float_repr (PyInt i) = int_repr i"
| "json_dumps float_repr (PyFloat x) = floatstr float_repr x"
| "json_dumps float_repr (PyStr s) = encode_basestring_ascii s"
| "json_dumps float_repr (PyList xs) =
     ascii ''['' @ join (ascii '', '') (map (json_dumps float_repr) xs) @ ascii '']''"
| "json_dumps float_repr (PyDict kvs) =
     ascii ''{'' @
       join (ascii '', '') (map dumps_item (map (map_prod id (json_dumps float_repr)) kvs))
       @ ascii ''}''"

definition hex_val :: "nat \<Rightarrow> nat option" where
  "hex_val c =
     (if 48 \<le> c \<and> c \<le> 57 then Some (c - 48)
      else if 97 \<le> c \<and> c \<le> 102 then Some (c - 87)
      else if 65 \<le> c \<and> c \<le> 70 then Some (c - 55)
      else None)"

definition decode_uXXXX :: "pystr \<Rightarrow> nat option" where
  "decode_uXXXX s =
     (if length s < 4 then None
      else case (hex_val (s ! 0), hex_val (s ! 1), hex_val (s ! 2), hex_val (s ! 3)) of
             (Some x, Some y, Some z, Some w) \<Rightarrow> Some (4096 * x + 256 * y + 16 * z + w)
           | _ \<Rightarrow> None)"

definition backslash :: "nat \<Rightarrow> nat option" where
  "backslash e =
     (if e = DQ then Some 0x22
      else if e = BSL then Some 0x5C
      else if e = 0x2F then Some 0x2F
      else if e = 0x62 then Some 0x08
      else if e = 0x66 then Some 0x0C
      else if e = 0x6E then Some 0x0A
      else if e = 0x72 then Some 0x0D
      else if e = 0x74 then Some 0x09
      else None)"

definition scan_char :: "nat \<Rightarrow> pystr \<Rightarrow> (nat \<times> nat) option" where
  "scan_char c cs =
     (if c \<noteq> BSL then (if c < 0x20 then None else Some (c, 0))
      else if cs = [] then None
      else if hd cs \<noteq> 0x75 then
        (case backslash (hd cs) of None \<Rightarrow> None | Some x \<Rightarrow> Some (x, 1))
      else
        (case decode_uXXXX (tl cs) of
           None \<Rightarrow> None
         | Some uni \<Rightarrow>
             if 0xD800 \<le> uni \<and> uni \<le> 0xDBFF \<and> take 2 (drop 5 cs) = [BSL, 0x75] then
               (case decode_uXXXX (drop 7 cs) of
                  None \<Rightarrow> None
                | Some uni2 \<Rightarrow>
                    if 0xDC00 \<le> uni2 \<and> uni2 \<le> 0xDFFF
                    then Some (0x10000 + ((uni - 0xD800) * 1024 + (uni2 - 0xDC00)), 11)
                    else Some (uni, 5))
             else Some (uni, 5)))"

fun scanstring :: "pystr \<Rightarrow> (pystr \<times> pystr) option" where
  "scanstring [] = None"
| "scanstring (c # cs) =
     (if c = DQ then Some ([], cs)
      else case scan_char c cs of
             None \<Rightarrow> None
           | Some (x, n) \<Rightarrow>
               (case scanstring (drop n cs) of
                  None \<Rightarrow> None
                | Some (s, rest) \<Rightarrow> Some (x # s, rest)))"

definition is_ws :: "nat \<Rightarrow> bool" where
  "is_ws c = (c = 0x20 \<or> c = 0x09 \<or> c = 0x0A \<or> c = 0x0D)"

definition is_digit :: "nat \<Rightarrow> bool" where
  "is_digit c = (48 \<le> c \<and> c \<le> 57)"

definition digits_value :: "pystr \<Rightarrow> nat" where
  "digits_value ds = foldl (\<lambda>a d. 10 * a + (d - 48)) 0 ds"

text \<open>
  The pattern \<^verbatim>\<open>NUMBER_RE\<close> of \<^verbatim>\<open>json.scanner\<close> has three groups. The integer part is an
  optional minus sign followed by either a single \<^verbatim>\<open>0\<close> or a digit from 1 to 9 and any number
  of digits. The fraction is a dot followed by at least one digit. The exponent is \<^verbatim>\<open>e\<close> or
  \<^verbatim>\<open>E\<close>, an optional sign, and at least one digit. Fraction and exponent are optional; each of
  the three functions below returns the text its group matches at the start of its
  argument, and the empty text when the group does not match.
\<close>

definition match_integer :: "pystr \<Rightarrow> pystr" where
  "match_integer s =
     (let sign = (if s \<noteq> [] \<and> hd s = 0x2D then [0x2D] else []);
          s1 = drop (length sign) s;
          ds = (if s1 \<noteq> [] \<and> hd s1 = 48 then [48] else takeWhile is_digit s1)
      in if ds = [] then [] else sign @ ds)"

definition match_frac :: "pystr \<Rightarrow> pystr" where
  "match_frac s =
     (if s \<noteq> [] \<and> hd s = 0x2E \<and> takeWhile is_digit (tl s) \<noteq> []
      then 0x2E # takeWhile is_digit (tl s) else [])"

definition match_exp :: "pystr \<Rightarrow> pystr" where
  "match_exp s =
     (if s \<noteq> [] \<and> (hd s = 0x65 \<or> hd s = 0x45) then
        (let t = tl s;
             sign = (if t \<noteq> [] \<and> (hd t = 0x2B \<or> hd t = 0x2D) then [hd t] else []);
             ds = takeWhile is_digit (drop (length sign) t)
         in if ds = [] then [] else hd s # sign @ ds)
      else [])"

definition NUMBER_RE :: "pystr \<Rightarrow> (pystr \<times> pystr \<times> pystr) option" where
  \<comment> \<open>the three groups of a match at the start of \<open>s\<close>, \<open>None\<close> when there is no match\<close>
  "NUMBER_RE s =
     (let integer = match_integer s;
          s1 = drop (length integer) s;
          fraction = match_frac s1;
          s2 = drop (length fraction) s1;
          exponent = match_exp s2
      in if integer = [] then None else Some (integer, fraction, exponent))"

definition parse_int :: "pystr \<Rightarrow> int" where
  \<comment> \<open>\<^verbatim>\<open>int()\<close> on the text of an integer part\<close>
  "parse_int t =
     (if t \<noteq> [] \<and> hd t = 0x2D then - int (digits_value (tl t)) else int (digits_value t))"

definition match_number :: "(pystr \<Rightarrow> pyfloat) \<Rightarrow> pystr \<Rightarrow> (pyval \<times> pystr) option" where
  \<comment> \<open>a number at the start of \<open>s\<close>: a float when a fraction or an exponent is present,
      an integer otherwise\<close>
  "match_number parse_float s =
     (case NUMBER_RE s of
        None \<Rightarrow> None
      | Some (integer, fraction, exponent) \<Rightarrow>
          Some (if fraction \<noteq> [] \<or> exponent \<noteq> []
                then PyFloat (parse_float (integer @ fraction @ exponent))
                else PyInt (parse_int integer),
                drop (length (integer @ fraction @ exponent)) s))"

fun dict_set :: "(pykey \<times> pyval) list \<Rightarrow> pykey \<Rightarrow> pyval \<Rightarrow> (pykey \<times> pyval) list" where
  "dict_set [] k v = [(k, v)]"
| "dict_set ((k', v') # d) k v =
     (if k' = k then (k', v) # d else (k', v') # dict_set d k v)"

definition dict_of_pairs :: "(pystr \<times> pyval) list \<Rightarrow> (pykey \<times> pyval) list" where
  "dict_of_pairs pairs = foldl (\<lambda>d kv. dict_set d (KStr (fst kv)) (snd kv)) [] pairs"

fun parse_value :: "(pystr \<Rightarrow> pyfloat) \<Rightarrow> nat \<Rightarrow> pystr \<Rightarrow> (pyval \<times> pystr) option"
  and parse_array :: "(pystr \<Rightarrow> pyfloat) \<Rightarrow> nat \<Rightarrow> pystr \<Rightarrow> (pyval list \<times> pystr) option"
  and parse_object ::
    "(pystr \<Rightarrow> pyfloat) \<Rightarrow> nat \<Rightarrow> pystr \<Rightarrow> ((pystr \<times> pyval) list \<times> pystr) option"
where
  "parse_value parse_float 0 s = None"
| "parse_value parse_float (Suc n) s =
     (case s of
        [] \<Rightarrow> None
      | c # cs \<Rightarrow>
          if c = DQ then
            (case scanstring cs of None \<Rightarrow> None | Some (x, r) \<Rightarrow> Some (PyStr x, r))
          else if c = 0x7B then
            (case dropWhile is_ws cs of
               [] \<Rightarrow> None
             | d # ds \<Rightarrow>
                 if d = 0x7D then Some (PyDict [], ds)
                 else (case parse_object parse_float n (d # ds) of
                         None \<Rightarrow> None
                       | Some (kvs, r) \<Rightarrow> Some (PyDict (dict_of_pairs kvs), r)))
          else if c = 0x5B then
            (case dropWhile is_ws cs of
               [] \<Rightarrow> None
             | d # ds \<Rightarrow>
                 if d = 0x5D then Some (PyList [], ds)
                 else (case parse_array parse_float n (d # ds) of
                         None \<Rightarrow> None
                       | Some (xs, r) \<Rightarrow> Some (PyList xs, r)))
          else if take 4 s = ascii ''null'' then Some (PyNone, drop 4 s)
          else if take 4 s = ascii ''true'' then Some (PyBool True, drop 4 s)
          else if take 5 s = ascii ''false'' then Some (PyBool False, drop 5 s)
          else
            (case match_number parse_float s of
               Some (v, r) \<Rightarrow> Some (v, r)
             | None \<Rightarrow>
                 if take 3 s = ascii ''NaN'' then Some (PyFloat NaN, drop 3 s)
                 else if take 8 s = ascii ''Infinity'' then Some (PyFloat PosInf, drop 8 s)
                 else if take 9 s = ascii ''-Infinity'' then Some (PyFloat NegInf, drop 9 s)
                 else None))"
| "parse_array parse_float 0 s = None"
| "parse_array parse_float (Suc n) s =
     (case parse_value parse_float n s of
        None \<Rightarrow> None
      | Some (v, r) \<Rightarrow>
          (case dropWhile is_ws r of
             [] \<Rightarrow> None
           | c # cs \<Rightarrow>
               if c = 0x5D then Some ([v], cs)
               else if c = 0x2C then
                 (case parse_array parse_float n (dropWhile is_ws cs) of
                    None \<Rightarrow> None
                  | Some (vs, r') \<Rightarrow> Some (v # vs, r'))
               else None))"
| "parse_object parse_float 0 s = None"
| "parse_object parse_float (Suc n) s =
     (case s of
        [] \<Rightarrow> None
      | q # s1 \<Rightarrow>
          if q \<noteq> DQ then None
          else
            (case scanstring s1 of
               None \<Rightarrow> None
             | Some (k, r1) \<Rightarrow>
                 (case dropWhile is_ws r1 of
                    [] \<Rightarrow> None
                  | c # r2 \<Rightarrow>
                      if c \<noteq> 0x3A then None
                      else
                        (case parse_value parse_float n (dropWhile is_ws r2) of
                           None \<Rightarrow> None
                         | Some (v, r3) \<Rightarrow>
                             (case dropWhile is_ws r3 of
                                [] \<Rightarrow> None
                              | d # r4 \<Rightarrow>
                                  if d = 0x7D then Some ([(k, v)], r4)
                                  else if d = 0x2C then
                                    (case parse_object parse_float n (dropWhile is_ws r4) of
                                       None \<Rightarrow> None
                                     | Some (kvs, r5) \<Rightarrow> Some ((k, v) # kvs, r5))
                                  else None)))))"

definition json_loads :: "(pystr \<Rightarrow> pyfloat) \<Rightarrow> pystr \<Rightarrow> pyval option" where
  "json_loads parse_float s =
     (case parse_value parse_float (length s) (dropWhile is_ws s) of
        None \<Rightarrow> None
      | Some (v, r) \<Rightarrow> if dropWhile is_ws r = [] then Some v else None)"


subsection \<open>Values that survive the round trip\<close>

text \<open>
  A string is plain when its code points are below \<open>0x110000\<close> and no high surrogate is
  directly followed by a low surrogate (the decoder joins such a pair into one code point).
  A float is plain when it is an infinity, or a finite number whose \<open>float_repr\<close> is a text
  that the number pattern matches in full as a float and that \<open>parse_float\<close> reads back as the
  same number (for the interpreter's conversions this is every finite float). NaN is not
  plain: it is written as \<^verbatim>\<open>NaN\<close> and read back as a NaN, but a NaN is equal to nothing, not
  even to itself. A value is plain when all its strings and floats are, and the keys of its
  dictionaries are distinct strings. \<open>cost\<close> bounds the depth of recursion the decoder needs
  for a value.
\<close>

definition high_surrogate :: "nat \<Rightarrow> bool" where
  "high_surrogate c \<longleftrightarrow> 0xD800 \<le> c \<and> c \<le> 0xDBFF"

definition low_surrogate :: "nat \<Rightarrow> bool" where
  "low_surrogate c \<longleftrightarrow> 0xDC00 \<le> c \<and> c \<le> 0xDFFF"

fun plain_str :: "pystr \<Rightarrow> bool" where
  "plain_str [] = True"
| "plain_str [c] = (c < 0x110000)"
| "plain_str (c # d # s) =
     (c < 0x110000 \<and> \<not> (high_surrogate c \<and> low_surrogate d) \<and> plain_str (d # s))"

definition plain_key :: "pykey \<Rightarrow> bool" where
  "plain_key k = (case k of KStr s \<Rightarrow> plain_str s | KInt i \<Rightarrow> False)"

definition float_token :: "pystr \<Rightarrow> bool" where
  \<comment> \<open>the whole of \<open>t\<close> is a match of the number pattern, with a fraction or an exponent\<close>
  "float_token t \<longleftrightarrow>
     (case NUMBER_RE t of
        None \<Rightarrow> False
      | Some (integer, fraction, exponent) \<Rightarrow>
          integer @ fraction @ exponent = t \<and> (fraction \<noteq> [] \<or> exponent \<noteq> []))"

definition plain_float :: "(real \<Rightarrow> pystr) \<Rightarrow> (pystr \<Rightarrow> pyfloat) \<Rightarrow> pyfloat \<Rightarrow> bool" where
  "plain_float float_repr parse_float x =
     (case x of
        Finite r \<Rightarrow> float_token (float_repr r) \<and> parse_float (float_repr r) = Finite r
      | PosInf \<Rightarrow> True
      | NegInf \<Rightarrow> True
      | NaN \<Rightarrow> False)"

primrec plain :: "(real \<Rightarrow> pystr) \<Rightarrow> (pystr \<Rightarrow> pyfloat) \<Rightarrow> pyval \<Rightarrow> bool" where
  "plain float_repr parse_float PyNone = True"
| "plain float_repr parse_float (PyBool b) = True"
| "plain float_repr parse_float (PyInt i) = True"
| "plain float_repr parse_float (PyFloat x) = plain_float float_repr parse_float x"
| "plain float_repr parse_float (PyStr s) = plain_str s"
| "plain float_repr parse_float (PyList xs) =
     list_all (\<lambda>b. b) (map (plain float_repr parse_float) xs)"
| "plain float_repr parse_float (PyDict kvs) =
     (list_all (\<lambda>kv. plain_key (fst kv) \<and> snd kv)
        (map (map_prod id (plain float_repr parse_float)) kvs) \<and>
      distinct (map fst kvs))"

primrec cost :: "pyval \<Rightarrow> nat" where
  "cost PyNone = 1"
| "cost (PyBool b) = 1"
| "cost (PyInt i) = 1"
| "cost (PyFloat x) = 1"
| "cost (PyStr s) = 1"
| "cost (PyList xs) = Suc (sum_list (map Suc (map cost xs)))"
| "cost (PyDict kvs) = Suc (sum_list (map (\<lambda>kv. Suc (snd kv)) (map (map_prod id cost) kvs)))"

definition delimited :: "pystr \<Rightarrow> bool" where
  \<comment> \<open>what follows a value in the output of \<open>json_dumps\<close>: nothing, a comma or a closing bracket\<close>
  "delimited rest \<longleftrightarrow> rest = [] \<or> hd rest = 0x2C \<or> hd rest = 0x5D \<or> hd rest = 0x7D"

definition value_start :: "nat \<Rightarrow> bool" where
  \<comment> \<open>the characters a rendered value can begin with\<close>
  "value_start c \<longleftrightarrow>
     c = DQ \<or> c = 0x7B \<or> c = 0x5B \<or> c = 110 \<or> c = 116 \<or> c = 102 \<or> c = 78 \<or> c = 73 \<or>
     c = 0x2D \<or> is_digit c"


definition parses :: "(real \<Rightarrow> pystr) \<Rightarrow> (pystr \<Rightarrow> pyfloat) \<Rightarrow> pyval \<Rightarrow> bool" where
  \<comment> \<open>the rendering of \<open>v\<close> begins like a value, and with enough fuel the decoder reads it
      back, whatever follows it\<close>
  "parses float_repr parse_float v \<longleftrightarrow>
     (\<exists>c cs. json_dumps float_repr v = c # cs \<and> value_start c) \<and>
     (\<forall>n rest. delimited rest \<longrightarrow> cost v \<le> n \<longrightarrow>
        parse_value parse_float n (json_dumps float_repr v @ rest) = Some (v, rest))"

definition ascii_only :: "pystr \<Rightarrow> bool" where
  "ascii_only s \<longleftrightarrow> (\<forall>c\<in>set s. c < 128)"

definition example_float_repr :: "real \<Rightarrow> pystr" where
  \<comment> \<open>a stand-in for \<^verbatim>\<open>float.__repr__\<close> in the examples; it agrees with the interpreter on
      1.5 and 0.0, the only floats that occur there\<close>
  "example_float_repr r = (if r = 3 / 2 then ascii ''1.5'' else ascii ''0.0'')"

definition example_parse_float :: "pystr \<Rightarrow> pyfloat" where
  \<comment> \<open>a stand-in for \<^verbatim>\<open>float()\<close> in the examples, likewise\<close>
  "example_parse_float t = (if t = ascii ''1.5'' then Finite (3 / 2) else Finite 0)"

section \<open>History store (database.py)\<close>

text \<open>
  The table \<^verbatim>\<open>history\<close> is a list of rows in the order of their \<^verbatim>\<open>AUTOINCREMENT\<close> id; the
  table \<^verbatim>\<open>user_settings\<close> is a map from user id to limit. \<open>last_id\<close> is the largest id handed out
  so far. \<^verbatim>\<open>CURRENT_TIMESTAMP\<close> has a resolution of one second; the value that the engine
  stores with a new row is passed to \<open>add_message_to_history\<close> as a number of seconds.

  An \<^verbatim>\<open>INTEGER\<close> of the engine has 64 bits. The driver raises \<^verbatim>\<open>OverflowError\<close> when it is
  given a Python integer outside that range as a parameter of a statement, and
  \<^verbatim>\<open>UnicodeEncodeError\<close> when it is given a string that has no UTF-8 encoding (one with a
  surrogate code point); the statement is then not carried out. The functions of this
  section return \<open>None\<close> when the Python function raises. A limit kept in
  \<^verbatim>\<open>user_settings\<close> is a value of the column, a 64-bit word read as a signed number.
\<close>

definition sqlite_integer :: "int \<Rightarrow> bool" where
  "sqlite_integer i \<longleftrightarrow> - (2 ^ 63) \<le> i \<and> i < 2 ^ 63"

definition utf8_encodable :: "pystr \<Rightarrow> bool" where
  "utf8_encodable s \<longleftrightarrow>
     (\<forall>c\<in>set s. c < 0x110000 \<and> \<not> high_surrogate c \<and> \<not> low_surrogate c)"

record hrow =
  r_id :: nat
  r_user_id :: int
  r_role :: pystr
  r_parts :: pystr
  r_timestamp :: nat

record database =
  history :: "hrow list"
  user_settings :: "int \<rightharpoonup> 64 word"
  last_id :: nat

definition DEFAULT_HISTORY_LIMIT :: int where
  "DEFAULT_HISTORY_LIMIT = 12"

definition init_db :: database where
  "init_db = \<lparr>history = [], user_settings = Map.empty, last_id = 0\<rparr>"

definition set_history_limit :: "database \<Rightarrow> int \<Rightarrow> int \<Rightarrow> database option" where
  "set_history_limit db user_id limit =
     (if sqlite_integer user_id \<and> sqlite_integer limit
      then Some (db\<lparr>user_settings := (user_settings db)(user_id \<mapsto> word_of_int limit)\<rparr>)
      else None)"

definition stored_limit :: "database \<Rightarrow> int \<Rightarrow> int" where
  \<comment> \<open>\<^verbatim>\<open>result[0] if result else DEFAULT_HISTORY_LIMIT\<close>, where \<^verbatim>\<open>result\<close> is the row that the
      query of \<open>get_history_limit\<close> finds\<close>
  "stored_limit db user_id =
     (case user_settings db user_id of
        Some result \<Rightarrow> sint result
      | None \<Rightarrow> DEFAULT_HISTORY_LIMIT)"

definition get_history_limit :: "database \<Rightarrow> int \<Rightarrow> int option" where
  "get_history_limit db user_id =
     (if sqlite_integer user_id then Some (stored_limit db user_id) else None)"

definition add_message_to_history ::
  "(real \<Rightarrow> pystr) \<Rightarrow> nat \<Rightarrow> database \<Rightarrow> int \<Rightarrow> pystr \<Rightarrow> pyval \<Rightarrow> database option" where
  "add_message_to_history float_repr now db user_id role parts =
     (let parts_json = json_dumps float_repr parts
      in if sqlite_integer user_id \<and> utf8_encodable role \<and> utf8_encodable parts_json
         then Some (db\<lparr>history := history db @
                        [\<lparr>r_id = Suc (last_id db), r_user_id = user_id, r_role = role,
                          r_parts = parts_json, r_timestamp = now\<rparr>],
                      last_id := Suc (last_id db)\<rparr>)
         else None)"

text \<open>
  The query of \<open>get_history\<close> is
  \<^verbatim>\<open>SELECT role, parts FROM history WHERE user_id = ? ORDER BY timestamp DESC LIMIT ?\<close>.
  SQL leaves the order of rows with equal sort keys to the engine, so the way the engine
  carries out \<^verbatim>\<open>ORDER BY timestamp DESC\<close> is a parameter of the model: any function that
  permutes the selected rows into non-increasing timestamps (\<open>orders_by_timestamp_desc\<close>).
  \<open>sqlite_order_by\<close> is the order SQLite produces for this query: it scans the table by rowid
  and sorts with the position in the scan as the last key, so rows with equal timestamps
  stay in table order. A negative \<^verbatim>\<open>LIMIT\<close> means no limit in SQLite.
\<close>

type_synonym engine = "hrow list \<Rightarrow> hrow list"

definition orders_by_timestamp_desc :: "engine \<Rightarrow> bool" where
  "orders_by_timestamp_desc order_by \<longleftrightarrow>
     (\<forall>rows. mset (order_by rows) = mset rows \<and>
             sorted_wrt (\<lambda>a b. r_timestamp b \<le> r_timestamp a) (order_by rows))"

definition sqlite_order_by :: engine where
  "sqlite_order_by rows = sort_key (\<lambda>r. - int (r_timestamp r)) rows"

definition sql_limit :: "int \<Rightarrow> 'a list \<Rightarrow> 'a list" where
  "sql_limit limit rows = (if limit < 0 then rows else take (nat limit) rows)"

definition select_history :: "engine \<Rightarrow> database \<Rightarrow> int \<Rightarrow> int \<Rightarrow> hrow list" where
  "select_history order_by db user_id limit =
     sql_limit limit (order_by (filter (\<lambda>r. r_user_id r = user_id) (history db)))"

type_synonym turn = "pystr \<times> pyval"
  \<comment> \<open>the dictionary \<^verbatim>\<open>{"role": role, "parts": parts}\<close>\<close>

fun load_rows :: "(pystr \<Rightarrow> pyfloat) \<Rightarrow> hrow list \<Rightarrow> turn list option" where
  \<comment> \<open>the \<^verbatim>\<open>for role, parts_json in rows\<close> loop; \<open>None\<close> when \<^verbatim>\<open>json.loads\<close> raises\<close>
  "load_rows parse_float [] = Some []"
| "load_rows parse_float (r # rows) =
     (case json_loads parse_float (r_parts r) of
        None \<Rightarrow> None
      | Some parts \<Rightarrow>
          (case load_rows parse_float rows of
             None \<Rightarrow> None
           | Some turns \<Rightarrow> Some ((r_role r, parts) # turns)))"

definition get_history ::
  "engine \<Rightarrow> (pystr \<Rightarrow> pyfloat) \<Rightarrow> database \<Rightarrow> int \<Rightarrow> turn list option" where
  "get_history order_by parse_float db user_id =
     (case get_history_limit db user_id of
        None \<Rightarrow> None
      | Some limit \<Rightarrow>
          (let rows = select_history order_by db user_id limit
           in load_rows parse_float (rev rows)))"

definition clear_history :: "database \<Rightarrow> int \<Rightarrow> database option" where
  "clear_history db user_id =
     (if sqlite_integer user_id
      then Some (db\<lparr>history := filter (\<lambda>r. r_user_id r \<noteq> user_id) (history db)\<rparr>)
      else None)"



text \<open>
  A sequence of appends, each with the time the engine stamps on the row, and the relation
  between a stored row and the append that wrote it.
\<close>

record message =
  m_time :: nat
  m_user_id :: int
  m_role :: pystr
  m_parts :: pyval

fun append_all :: "(real \<Rightarrow> pystr) \<Rightarrow> database \<Rightarrow> message list \<Rightarrow> database option" where
  "append_all float_repr db [] = Some db"
| "append_all float_repr db (m # msgs) =
     (case add_message_to_history float_repr (m_time m) db (m_user_id m) (m_role m) (m_parts m) of
        None \<Rightarrow> None
      | Some db' \<Rightarrow> append_all float_repr db' msgs)"

definition written :: "(real \<Rightarrow> pystr) \<Rightarrow> hrow \<Rightarrow> message \<Rightarrow> bool" where
  "written float_repr r m \<longleftrightarrow>
     r_user_id r = m_user_id m \<and> r_role r = m_role m \<and>
     r_parts r = json_dumps float_repr (m_parts m) \<and> r_timestamp r = m_time m"

definition newest_first_order_by :: engine where
  \<comment> \<open>another way to carry out \<^verbatim>\<open>ORDER BY timestamp DESC\<close>: rows with equal timestamps in
      reverse table order\<close>
  "newest_first_order_by rows = rev (sort_key (\<lambda>r. int (r_timestamp r)) rows)"


section \<open>Request throttle (main.py)\<close>

text \<open>
  \<^verbatim>\<open>user_last_request = defaultdict(float)\<close> is a dictionary from a user id to the time of
  that user's last request; a missing key reads as \<open>0.0\<close>. It is modelled as a total
  function whose initial value is \<open>\<lambda>_. 0\<close>. Readings of \<^verbatim>\<open>time.time()\<close> are passed in as
  real numbers.
\<close>

type_synonym last_request = "int \<Rightarrow> real"

definition COOLDOWNS :: "string \<rightharpoonup> real" where
  "COOLDOWNS =
     [''text'' \<mapsto> 3, ''fact'' \<mapsto> 5, ''photo'' \<mapsto> 10,
      ''voice'' \<mapsto> 15, ''video'' \<mapsto> 20, ''settings'' \<mapsto> 2]"

definition cooldown_period :: "string \<Rightarrow> real" where
  \<comment> \<open>\<^verbatim>\<open>COOLDOWNS.get(command_type, 2)\<close>\<close>
  "cooldown_period command_type =
     (case COOLDOWNS command_type of Some c \<Rightarrow> c | None \<Rightarrow> 2)"

definition is_user_on_cooldown :: "real \<Rightarrow> last_request \<Rightarrow> int \<Rightarrow> string \<Rightarrow> bool" where
  \<comment> \<open>the first argument is the reading of \<^verbatim>\<open>time.time()\<close>; the warning that the source
      logs on the \<open>True\<close> branch is recorded by the handlers\<close>
  "is_user_on_cooldown now user_last_request user_id command_type =
     (let time_since_last_request = now - user_last_request user_id
      in time_since_last_request < cooldown_period command_type)"

definition update_user_timestamp :: "real \<Rightarrow> last_request \<Rightarrow> int \<Rightarrow> last_request" where
  "update_user_timestamp now user_last_request user_id = user_last_request (user_id := now)"


section \<open>The handlers and their surroundings (main.py)\<close>

text \<open>
  The state a handler works on: the database, the throttle dictionary, the files in the
  local temporary directories, the files held by the remote service, and the list of calls
  made to the outside (messaging platform, remote service, file system, log), oldest first.
\<close>

datatype media = Voice | VideoNote

datatype reply =
    AskPrompt                \<comment> \<open>the invitation sent for the "ask a question" button\<close>
  | SettingsMenu int         \<comment> \<open>the settings text with the current limit\<close>
  | Fact pystr               \<comment> \<open>the generated fact\<close>
  | FactQuota                \<comment> \<open>"the limit of facts for today is used up"\<close>
  | FactFailed               \<comment> \<open>"could not come up with a fact"\<close>
  | Generated pystr          \<comment> \<open>the generated answer, through \<^verbatim>\<open>send_long_message\<close>\<close>
  | TextFailed               \<comment> \<open>"an error occurred while processing your request"\<close>
  | TooLarge media           \<comment> \<open>"this voice message / video is too large, the limit is 20 MB"\<close>
  | VideoReceived            \<comment> \<open>"video received, processing started"\<close>
  | MediaFailed media        \<comment> \<open>"could not process the voice message / video message"\<close>

datatype event =
    LogWarning int string    \<comment> \<open>\<^verbatim>\<open>logger.warning\<close> of \<^verbatim>\<open>is_user_on_cooldown\<close>\<close>
  | Reply reply              \<comment> \<open>\<^verbatim>\<open>reply_text\<close> or \<^verbatim>\<open>send_long_message\<close>\<close>
  | EditMessage reply        \<comment> \<open>\<^verbatim>\<open>callback_query.edit_message_text\<close>\<close>
  | ChatAction               \<comment> \<open>\<^verbatim>\<open>send_chat_action\<close>\<close>
  | ReadHistory int          \<comment> \<open>\<^verbatim>\<open>db.get_history\<close>\<close>
  | Generate                 \<comment> \<open>\<^verbatim>\<open>start_chat\<close> and \<^verbatim>\<open>send_message_async\<close>\<close>
  | GetFile                  \<comment> \<open>the platform's \<^verbatim>\<open>get_file\<close>\<close>
  | Download string          \<comment> \<open>\<^verbatim>\<open>download_to_drive\<close>\<close>
  | Upload string            \<comment> \<open>\<^verbatim>\<open>genai.upload_file\<close>\<close>
  | Sleep nat                \<comment> \<open>\<^verbatim>\<open>time.sleep\<close>\<close>
  | PollFile string          \<comment> \<open>\<^verbatim>\<open>genai.get_file\<close>\<close>
  | Unlink string            \<comment> \<open>\<^verbatim>\<open>file_path.unlink\<close>\<close>
  | DeleteFile string        \<comment> \<open>\<^verbatim>\<open>genai.delete_file\<close>\<close>

datatype exn =
    Exception string         \<comment> \<open>an exception caught by \<^verbatim>\<open>except Exception\<close>, with its message\<close>
  | BaseException            \<comment> \<open>one that is not (a cancellation, for instance)\<close>

record gfile =
  name :: string
  state_name :: string

record world =
  db :: database
  user_last_request :: last_request
  local_files :: "string set"
  remote_files :: "string set"
  trace :: "event list"

text \<open>
  What the outside answers during one request. Every call to the outside may raise,
  the two deletions of the \<^verbatim>\<open>finally\<close> blocks included; a deletion that raises deletes
  nothing. The calls to the database raise as described in the previous section. A file
  returned by \<^verbatim>\<open>genai.get_file\<close> has the name it was asked for.
\<close>

record env =
  clock_check :: real                   \<comment> \<open>\<^verbatim>\<open>time.time()\<close> in \<^verbatim>\<open>is_user_on_cooldown\<close>\<close>
  clock_mark :: real                    \<comment> \<open>\<^verbatim>\<open>time.time()\<close> in \<^verbatim>\<open>update_user_timestamp\<close>\<close>
  model_loaded :: bool                  \<comment> \<open>the global \<^verbatim>\<open>model\<close> is not \<^verbatim>\<open>None\<close>\<close>
  order_by :: engine                    \<comment> \<open>the database engine, see above\<close>
  telegram :: "reply \<Rightarrow> exn option"     \<comment> \<open>does sending this reply raise\<close>
  chat_action :: "exn option"           \<comment> \<open>does \<^verbatim>\<open>send_chat_action\<close> raise\<close>
  generate :: "exn + pystr"             \<comment> \<open>\<^verbatim>\<open>response.text\<close>, or what the chat calls raise\<close>
  db_clock1 :: nat                      \<comment> \<open>\<^verbatim>\<open>CURRENT_TIMESTAMP\<close> of the first insert\<close>
  db_clock2 :: nat                      \<comment> \<open>\<^verbatim>\<open>CURRENT_TIMESTAMP\<close> of the second insert\<close>
  file_size :: "int option"             \<comment> \<open>the declared size of the media, if any\<close>
  get_file :: "exn option"              \<comment> \<open>does the platform's \<^verbatim>\<open>get_file\<close> raise\<close>
  uuid :: string                        \<comment> \<open>\<^verbatim>\<open>uuid.uuid4()\<close>\<close>
  download :: "exn option"              \<comment> \<open>does \<^verbatim>\<open>download_to_drive\<close> raise\<close>
  download_leaves_file :: bool          \<comment> \<open>a failed download leaves a partial file\<close>
  upload :: "exn + gfile"               \<comment> \<open>the result of \<^verbatim>\<open>genai.upload_file\<close>\<close>
  poll :: "nat \<Rightarrow> exn + string"         \<comment> \<open>the state named by the k-th \<^verbatim>\<open>genai.get_file\<close>\<close>
  unlink :: "exn option"                \<comment> \<open>does \<^verbatim>\<open>file_path.unlink()\<close> raise\<close>
  delete_file :: "exn option"           \<comment> \<open>does \<^verbatim>\<open>genai.delete_file\<close> raise\<close>
  py_float_repr :: "real \<Rightarrow> pystr"       \<comment> \<open>the interpreter's \<^verbatim>\<open>float.__repr__\<close>\<close>
  py_float :: "pystr \<Rightarrow> pyfloat"         \<comment> \<open>the interpreter's \<^verbatim>\<open>float()\<close>\<close>

definition MAX_FILE_SIZE :: int where
  "MAX_FILE_SIZE = 20 * 1024 * 1024"

definition record_event :: "event \<Rightarrow> world \<Rightarrow> world" where
  "record_event e w = w\<lparr>trace := trace w @ [e]\<rparr>"

definition send :: "env \<Rightarrow> reply \<Rightarrow> world \<Rightarrow> (exn + unit) \<times> world" where
  "send e r w =
     ((case telegram e r of None \<Rightarrow> Inr () | Some x \<Rightarrow> Inl x), record_event (Reply r) w)"

definition mark :: "env \<Rightarrow> int \<Rightarrow> world \<Rightarrow> world" where
  \<comment> \<open>the call \<^verbatim>\<open>update_user_timestamp(user_id)\<close>\<close>
  "mark e user_id w =
     w\<lparr>user_last_request := update_user_timestamp (clock_mark e) (user_last_request w) user_id\<rparr>"

definition on_cooldown :: "env \<Rightarrow> int \<Rightarrow> string \<Rightarrow> world \<Rightarrow> bool" where
  \<comment> \<open>the call \<^verbatim>\<open>is_user_on_cooldown(user_id, command_type)\<close>\<close>
  "on_cooldown e user_id command_type w =
     is_user_on_cooldown (clock_check e) (user_last_request w) user_id command_type"

definition text_parts :: "pystr \<Rightarrow> pyval" where
  \<comment> \<open>\<^verbatim>\<open>[{"text": t}]\<close>\<close>
  "text_parts t = PyList [PyDict [(KStr (ascii ''text''), PyStr t)]]"

definition store_turns ::
  "env \<Rightarrow> int \<Rightarrow> pystr \<Rightarrow> pystr \<Rightarrow> world \<Rightarrow> (exn + unit) \<times> world" where
  \<comment> \<open>the two calls of \<^verbatim>\<open>db.add_message_to_history\<close>, user turn first; when the second
      raises, the first row stays\<close>
  "store_turns e user_id user_text full_response_text w =
     (case add_message_to_history (py_float_repr e) (db_clock1 e) (db w) user_id
             (ascii ''user'') (text_parts user_text) of
        None \<Rightarrow> (Inl (Exception ''add_message_to_history''), w)
      | Some db1 \<Rightarrow>
          (case add_message_to_history (py_float_repr e) (db_clock2 e) db1 user_id
                  (ascii ''model'') (text_parts full_response_text) of
             None \<Rightarrow> (Inl (Exception ''add_message_to_history''), w\<lparr>db := db1\<rparr>)
           | Some db2 \<Rightarrow> (Inr (), w\<lparr>db := db2\<rparr>)))"

definition answer :: "env \<Rightarrow> int \<Rightarrow> pystr \<Rightarrow> world \<Rightarrow> (exn + unit) \<times> world" where
  \<comment> \<open>from \<^verbatim>\<open>user_history = db.get_history(user_id)\<close> to \<^verbatim>\<open>send_long_message\<close>, the part
      that the text, voice and video-note handlers share; \<open>user_text\<close> is what is stored as
      the user's turn\<close>
  "answer e user_id user_text w =
     (let w1 = record_event (ReadHistory user_id) w in
      case get_history (order_by e) (py_float e) (db w1) user_id of
        None \<Rightarrow> (Inl (Exception ''get_history''), w1)
      | Some user_history \<Rightarrow>
          (let w2 = record_event Generate w1 in
           case generate e of
             Inl x \<Rightarrow> (Inl x, w2)
           | Inr full_response_text \<Rightarrow>
               (case store_turns e user_id user_text full_response_text w2 of
                  (Inl x, w3) \<Rightarrow> (Inl x, w3)
                | (Inr _, w3) \<Rightarrow> send e (Generated full_response_text) w3)))"

subsection \<open>Settings menu and random fact\<close>

definition settings_menu :: "env \<Rightarrow> bool \<Rightarrow> int \<Rightarrow> world \<Rightarrow> (exn + unit) \<times> world" where
  \<comment> \<open>the second argument tells whether the update is a callback query\<close>
  "settings_menu e callback_query user_id w =
     (if \<not> callback_query \<and> on_cooldown e user_id ''settings'' w
      then (Inr (), record_event (LogWarning user_id ''settings'') w)
      else
        (let w1 = mark e user_id w in
         case get_history_limit (db w1) user_id of
           None \<Rightarrow> (Inl (Exception ''get_history_limit''), w1)
         | Some current_limit \<Rightarrow>
             if callback_query
             then ((case telegram e (SettingsMenu current_limit) of
                      None \<Rightarrow> Inr () | Some x \<Rightarrow> Inl x),
                   record_event (EditMessage (SettingsMenu current_limit)) w1)
             else send e (SettingsMenu current_limit) w1))"

definition lower :: "char \<Rightarrow> char" where
  "lower c = (if 65 \<le> (of_char c :: nat) \<and> (of_char c :: nat) \<le> 90
              then char_of ((of_char c :: nat) + 32) else c)"

definition mentions_quota :: "string \<Rightarrow> bool" where
  \<comment> \<open>\<^verbatim>\<open>"quota" in str(e).lower()\<close>\<close>
  "mentions_quota msg = sublist ''quota'' (map lower msg)"

definition random_fact_try :: "env \<Rightarrow> int \<Rightarrow> world \<Rightarrow> (exn + unit) \<times> world" where
  "random_fact_try e user_id w =
     (let w1 = mark e user_id w in
      if \<not> model_loaded e then (Inr (), w1)
      else
        (let w2 = record_event ChatAction w1 in
         case chat_action e of
           Some x \<Rightarrow> (Inl x, w2)
         | None \<Rightarrow>
             (let w3 = record_event Generate w2 in
              case generate e of
                Inl x \<Rightarrow> (Inl x, w3)
              | Inr text \<Rightarrow> send e (Fact text) w3)))"

definition random_fact :: "env \<Rightarrow> int \<Rightarrow> world \<Rightarrow> (exn + unit) \<times> world" where
  "random_fact e user_id w =
     (if on_cooldown e user_id ''fact'' w
      then (Inr (), record_event (LogWarning user_id ''fact'') w)
      else
        (case random_fact_try e user_id w of
           (Inl (Exception msg), w1) \<Rightarrow>
             send e (if mentions_quota msg then FactQuota else FactFailed) w1
         | (r, w1) \<Rightarrow> (r, w1)))"

subsection \<open>Text messages\<close>

definition ASK_BUTTON :: pystr where
  "ASK_BUTTON =
     [10067, 32, 1047, 1072, 1076, 1072, 1090, 1100, 32, 1074, 1086, 1087, 1088, 1086, 1089]"

definition FACT_BUTTON :: pystr where
  "FACT_BUTTON =
     [128161, 32, 1057, 1083, 1091, 1095, 1072, 1081, 1085, 1099, 1081, 32, 1092, 1072, 1082,
      1090]"

definition SETTINGS_BUTTON :: pystr where
  "SETTINGS_BUTTON = [9881, 65039, 32, 1053, 1072, 1089, 1090, 1088, 1086, 1081, 1082, 1080]"

definition handle_message_try :: "env \<Rightarrow> int \<Rightarrow> pystr \<Rightarrow> world \<Rightarrow> (exn + unit) \<times> world" where
  "handle_message_try e user_id message_text w =
     (let w1 = mark e user_id w in
      if \<not> model_loaded e then (Inr (), w1)
      else
        (let w2 = record_event ChatAction w1 in
         case chat_action e of
           Some x \<Rightarrow> (Inl x, w2)
         | None \<Rightarrow> answer e user_id message_text w2))"

definition handle_message :: "env \<Rightarrow> int \<Rightarrow> pystr \<Rightarrow> world \<Rightarrow> (exn + unit) \<times> world" where
  "handle_message e user_id message_text w =
     (if message_text = ASK_BUTTON then send e AskPrompt w
      else if message_text = FACT_BUTTON then random_fact e user_id w
      else if message_text = SETTINGS_BUTTON then settings_menu e False user_id w
      else if on_cooldown e user_id ''text'' w
      then (Inr (), record_event (LogWarning user_id ''text'') w)
      else
        (case handle_message_try e user_id message_text w of
           (Inl (Exception msg), w1) \<Rightarrow> send e TextFailed w1
         | (r, w1) \<Rightarrow> (r, w1)))"

subsection \<open>Voice messages and video notes\<close>

text \<open>
  \<^verbatim>\<open>handle_voice\<close> and \<^verbatim>\<open>handle_video_note\<close> are the same code up to the throttle category,
  the temporary directory and extension, the polling interval, the texts, and one more
  reply that the video handler sends before it starts. \<open>handle_media\<close> is that code with
  the kind of media as a parameter. The result is \<open>None\<close> when the handler never returns.
  An exception raised inside the \<^verbatim>\<open>finally\<close> block leaves the block at once and takes the
  place of the outcome the handler had reached.
\<close>

definition command_type :: "media \<Rightarrow> string" where
  "command_type kind = (case kind of Voice \<Rightarrow> ''voice'' | VideoNote \<Rightarrow> ''video'')"

definition poll_interval :: "media \<Rightarrow> nat" where
  "poll_interval kind = (case kind of Voice \<Rightarrow> 2 | VideoNote \<Rightarrow> 5)"

definition temp_path :: "media \<Rightarrow> string \<Rightarrow> string" where
  "temp_path kind u =
     (case kind of Voice \<Rightarrow> ''temp_audio/'' @ u @ ''.ogg''
                 | VideoNote \<Rightarrow> ''temp_video/'' @ u @ ''.mp4'')"

definition stored_text :: "media \<Rightarrow> pystr" where
  \<comment> \<open>the text stored as the user's turn: "(voice message)", "(video message)" in Russian\<close>
  "stored_text kind =
     (case kind of
        Voice \<Rightarrow> [40, 1043, 1086, 1083, 1086, 1089, 1086, 1074, 1086, 1077, 32, 1089, 1086,
                  1086, 1073, 1097, 1077, 1085, 1080, 1077, 41]
      | VideoNote \<Rightarrow> [40, 1042, 1080, 1076, 1077, 1086, 1089, 1086, 1086, 1073, 1097, 1077,
                      1085, 1080, 1077, 41])"

record locals =
  file_path :: "string option"
  gemini_file :: "gfile option"

definition no_locals :: locals where
  "no_locals = \<lparr>file_path = None, gemini_file = None\<rparr>"

partial_function (option) poll_loop ::
  "nat \<Rightarrow> (nat \<Rightarrow> exn + string) \<Rightarrow> nat \<Rightarrow> gfile \<Rightarrow> world \<Rightarrow> ((exn + unit) \<times> gfile \<times> world) option"
where
  "poll_loop interval answers k f w =
     (if state_name f = ''PROCESSING'' then
        (case answers k of
           Inl x \<Rightarrow>
             Some (Inl x, f, record_event (PollFile (name f)) (record_event (Sleep interval) w))
         | Inr s \<Rightarrow>
             poll_loop interval answers (Suc k) (f\<lparr>state_name := s\<rparr>)
               (record_event (PollFile (name f)) (record_event (Sleep interval) w)))
      else Some (Inr (), f, w))"

definition media_upload ::
  "media \<Rightarrow> env \<Rightarrow> int \<Rightarrow> string \<Rightarrow> world \<Rightarrow> ((exn + unit) \<times> locals \<times> world) option" where
  "media_upload kind e user_id p w =
     (let w1 = record_event (Upload p) w in
      case upload e of
        Inl x \<Rightarrow> Some (Inl x, \<lparr>file_path = Some p, gemini_file = None\<rparr>, w1)
      | Inr f \<Rightarrow>
          (case poll_loop (poll_interval kind) (poll e) 0 f
                  (w1\<lparr>remote_files := insert (name f) (remote_files w1)\<rparr>) of
             None \<Rightarrow> None
           | Some (r, f', w2) \<Rightarrow>
               (let l = \<lparr>file_path = Some p, gemini_file = Some f'\<rparr> in
                case r of
                  Inl x \<Rightarrow> Some (Inl x, l, w2)
                | Inr _ \<Rightarrow>
                    if state_name f' = ''FAILED'' then Some (Inl (Exception ''ValueError''), l, w2)
                    else (case answer e user_id (stored_text kind) w2 of
                            (r', w3) \<Rightarrow> Some (r', l, w3)))))"

definition media_fetch ::
  "media \<Rightarrow> env \<Rightarrow> int \<Rightarrow> world \<Rightarrow> ((exn + unit) \<times> locals \<times> world) option" where
  "media_fetch kind e user_id w =
     (let w1 = record_event GetFile w in
      case get_file e of
        Some x \<Rightarrow> Some (Inl x, no_locals, w1)
      | None \<Rightarrow>
          (let p = temp_path kind (uuid e);
               w2 = record_event (Download p) w1
           in case download e of
                Some x \<Rightarrow>
                  Some (Inl x, \<lparr>file_path = Some p, gemini_file = None\<rparr>,
                        if download_leaves_file e
                        then w2\<lparr>local_files := insert p (local_files w2)\<rparr> else w2)
              | None \<Rightarrow>
                  media_upload kind e user_id p
                    (w2\<lparr>local_files := insert p (local_files w2)\<rparr>)))"

definition media_try ::
  "media \<Rightarrow> env \<Rightarrow> int \<Rightarrow> world \<Rightarrow> ((exn + unit) \<times> locals \<times> world) option" where
  "media_try kind e user_id w =
     (case file_size e of
        None \<Rightarrow> Some (Inl (Exception ''TypeError''), no_locals, w)
      | Some n \<Rightarrow>
          if n > MAX_FILE_SIZE then
            (case send e (TooLarge kind) w of (r, w1) \<Rightarrow> Some (r, no_locals, w1))
          else
            (let w1 = mark e user_id w in
             if \<not> model_loaded e then Some (Inr (), no_locals, w1)
             else
               (case (if kind = VideoNote then send e VideoReceived w1 else (Inr (), w1)) of
                  (Inl x, w2) \<Rightarrow> Some (Inl x, no_locals, w2)
                | (Inr _, w2) \<Rightarrow>
                    (let w3 = record_event ChatAction w2 in
                     case chat_action e of
                       Some x \<Rightarrow> Some (Inl x, no_locals, w3)
                     | None \<Rightarrow> media_fetch kind e user_id w3))))"

definition media_except ::
  "media \<Rightarrow> env \<Rightarrow> (exn + unit) \<times> locals \<times> world \<Rightarrow> (exn + unit) \<times> locals \<times> world" where
  \<comment> \<open>the \<^verbatim>\<open>except Exception\<close> block\<close>
  "media_except kind e s =
     (case s of
        (Inl (Exception msg), l, w) \<Rightarrow> (case send e (MediaFailed kind) w of (r, w1) \<Rightarrow> (r, l, w1))
      | _ \<Rightarrow> s)"

definition unlink_temp :: "env \<Rightarrow> locals \<Rightarrow> world \<Rightarrow> (exn + unit) \<times> world" where
  \<comment> \<open>\<^verbatim>\<open>if file_path and file_path.exists(): file_path.unlink()\<close>\<close>
  "unlink_temp e l w =
     (case file_path l of
        None \<Rightarrow> (Inr (), w)
      | Some p \<Rightarrow>
          if p \<in> local_files w then
            (case unlink e of
               Some x \<Rightarrow> (Inl x, record_event (Unlink p) w)
             | None \<Rightarrow>
                 (Inr (), record_event (Unlink p) (w\<lparr>local_files := local_files w - {p}\<rparr>)))
          else (Inr (), w))"

definition delete_remote :: "env \<Rightarrow> locals \<Rightarrow> world \<Rightarrow> (exn + unit) \<times> world" where
  \<comment> \<open>\<^verbatim>\<open>if gemini_file: genai.delete_file(gemini_file.name)\<close>\<close>
  "delete_remote e l w =
     (case gemini_file l of
        None \<Rightarrow> (Inr (), w)
      | Some f \<Rightarrow>
          (case delete_file e of
             Some x \<Rightarrow> (Inl x, record_event (DeleteFile (name f)) w)
           | None \<Rightarrow>
               (Inr (), record_event (DeleteFile (name f))
                          (w\<lparr>remote_files := remote_files w - {name f}\<rparr>))))"

definition media_finally ::
  "env \<Rightarrow> (exn + unit) \<times> locals \<times> world \<Rightarrow> (exn + unit) \<times> world" where
  \<comment> \<open>the \<^verbatim>\<open>finally\<close> block\<close>
  "media_finally e s =
     (case s of
        (r, l, w) \<Rightarrow>
          (case unlink_temp e l w of
             (Inl x, w1) \<Rightarrow> (Inl x, w1)
           | (Inr _, w1) \<Rightarrow>
               (case delete_remote e l w1 of
                  (Inl x, w2) \<Rightarrow> (Inl x, w2)
                | (Inr _, w2) \<Rightarrow> (r, w2))))"

definition handle_media :: "media \<Rightarrow> env \<Rightarrow> int \<Rightarrow> world \<Rightarrow> ((exn + unit) \<times> world) option" where
  "handle_media kind e user_id w =
     (if on_cooldown e user_id (command_type kind) w
      then Some (Inr (), record_event (LogWarning user_id (command_type kind)) w)
      else
        (case media_try kind e user_id w of
           None \<Rightarrow> None
         | Some s \<Rightarrow> Some (media_finally e (media_except kind e s))))"

definition handle_voice :: "env \<Rightarrow> int \<Rightarrow> world \<Rightarrow> ((exn + unit) \<times> world) option" where
  "handle_voice = handle_media Voice"

definition handle_video_note :: "env \<Rightarrow> int \<Rightarrow> world \<Rightarrow> ((exn + unit) \<times> world) option" where
  "handle_video_note = handle_media VideoNote"



subsection \<open>A concrete state and a concrete outside world\<close>

definition example_world :: world where
  "example_world =
     \<lparr>db = init_db, user_last_request = (\<lambda>_. 0), local_files = {}, remote_files = {},
      trace = []\<rparr>"

definition example_env :: env where
  "example_env =
     \<lparr>clock_check = 1000, clock_mark = 1000, model_loaded = True, order_by = sqlite_order_by,
      telegram = (\<lambda>_. None), chat_action = None, generate = Inr (ascii ''ok''),
      db_clock1 = 1000, db_clock2 = 1000, file_size = Some 1024, get_file = None,
      uuid = ''u1'', download = None, download_leaves_file = False,
      upload = Inr \<lparr>name = ''files/a1'', state_name = ''PROCESSING''\<rparr>,
      poll = (\<lambda>k. Inr ''ACTIVE''), unlink = None, delete_file = None,
      py_float_repr = example_float_repr, py_float = example_parse_float\<rparr>"


definition failing_env :: env where
  \<comment> \<open>the upload succeeds, the file is ready at once, and the inference call raises\<close>
  "failing_env =
     example_env\<lparr>upload := Inr \<lparr>name = ''files/a1'', state_name = ''ACTIVE''\<rparr>,
                 generate := Inl (Exception ''boom'')\<rparr>"

definition stuck_env :: env where
  \<comment> \<open>the remote service reports \<^verbatim>\<open>PROCESSING\<close> for ever\<close>
  "stuck_env = example_env\<lparr>poll := (\<lambda>k. Inr ''PROCESSING'')\<rparr>"

definition same_second_db :: database where
  \<comment> \<open>user 42 asks "hi" and is answered "ok"; both rows are written in second 1000\<close>
  "same_second_db =
     \<lparr>history =
        [\<lparr>r_id = 1, r_user_id = 42, r_role = ascii ''user'',
          r_parts = json_dumps example_float_repr
                      (PyList [PyDict [(KStr (ascii ''text''), PyStr (ascii ''hi''))]]),
          r_timestamp = 1000\<rparr>,
         \<lparr>r_id = 2, r_user_id = 42, r_role = ascii ''model'',
          r_parts = json_dumps example_float_repr
                      (PyList [PyDict [(KStr (ascii ''text''), PyStr (ascii ''ok''))]]),
          r_timestamp = 1000\<rparr>],
      user_settings = Map.empty, last_id = 2\<rparr>"



section \<open>Properties of the request throttle\<close>

lemma cooldown_period_values:
  "cooldown_period ''text'' = 3" "cooldown_period ''fact'' = 5"
  "cooldown_period ''photo'' = 10" "cooldown_period ''voice'' = 15"
  "cooldown_period ''video'' = 20" "cooldown_period ''settings'' = 2"
  by (simp_all add: cooldown_period_def COOLDOWNS_def)

text \<open>
  C3, as stated, fails: the throttle state is keyed by the user id alone, so recording a
  request of one kind changes the decision for every other kind of the same user. User 42
  has never sent a voice message and would be admitted at time 110; after a request of any
  other kind is recorded for that user at time 100, the voice message at time 110 is
  rejected.
\<close>

theorem cooldown_shared_across_categories:
  "\<not> is_user_on_cooldown 110 (\<lambda>_. 0) 42 ''voice'' \<and>
   is_user_on_cooldown 110 (update_user_timestamp 100 (\<lambda>_. 0) 42) 42 ''voice''"
  by (simp add: is_user_on_cooldown_def update_user_timestamp_def cooldown_period_values)

text \<open>
  C3, amended: the state maps a user id to one timestamp. A request of kind \<open>c\<close> is rejected
  exactly when the time since that user's last recorded request, of whatever kind, is below
  the cooldown of \<open>c\<close>; recording a request for user \<open>u\<close> sets the timestamp that every
  kind of request of \<open>u\<close> is compared with, and leaves every other user's decision as it was.
\<close>

theorem cooldown_keyed_by_user:
  "is_user_on_cooldown now ulr u c = (now - ulr u < cooldown_period c) \<and>
   is_user_on_cooldown now (update_user_timestamp t ulr u) u' c =
     (if u' = u then now - t < cooldown_period c else is_user_on_cooldown now ulr u' c)"
  by (simp add: is_user_on_cooldown_def update_user_timestamp_def)


section \<open>The polling loop\<close>

lemma poll_loop_stuck_aux:
  assumes "poll_loop interval answers k f w = Some y"
  shows "\<not> (state_name f = ''PROCESSING'' \<and> (\<forall>j\<ge>k. answers j = Inr ''PROCESSING''))"
  using assms
proof (rule poll_loop.raw_induct [rotated,
        where P = "\<lambda>interval answers k f w y.
          \<not> (state_name f = ''PROCESSING'' \<and> (\<forall>j\<ge>k. answers j = Inr ''PROCESSING''))"],
       goal_cases)
  case (1 pl interval answers k f w y)
  show ?case
  proof
    assume a: "state_name f = ''PROCESSING'' \<and> (\<forall>j\<ge>k. answers j = Inr ''PROCESSING'')"
    then have ak: "answers k = Inr ''PROCESSING''" by simp
    from 1(2) a ak have
      "pl interval answers (Suc k) (f\<lparr>state_name := ''PROCESSING''\<rparr>)
         (record_event (PollFile (name f)) (record_event (Sleep interval) w)) = Some y"
      by simp
    from 1(1)[OF this] a show False by simp
  qed
qed

lemma poll_loop_stuck:
  assumes "state_name f = ''PROCESSING''" and "\<forall>j\<ge>k. answers j = Inr ''PROCESSING''"
  shows "poll_loop interval answers k f w = None"
proof (cases "poll_loop interval answers k f w")
  case None then show ?thesis .
next
  case (Some y)
  from poll_loop_stuck_aux[OF Some] assms show ?thesis by simp
qed

lemma poll_loop_returns:
  assumes "state_name f = ''PROCESSING''"
    and "\<forall>j<n. answers (k + j) = Inr ''PROCESSING''"
    and "answers (k + n) = Inr s" and "s \<noteq> ''PROCESSING''"
  shows "poll_loop interval answers k f w =
           Some (Inr (), f\<lparr>state_name := s\<rparr>,
                 w\<lparr>trace := trace w @ concat (replicate (Suc n) [Sleep interval, PollFile (name f)])\<rparr>)"
  using assms
proof (induction n arbitrary: k f w)
  case 0
  then show ?case
    by (subst poll_loop.simps, subst poll_loop.simps) (simp add: record_event_def)
next
  case (Suc n)
  from Suc.prems(2) have k: "answers k = Inr ''PROCESSING''" by (metis add.right_neutral zero_less_Suc)
  have rest: "\<forall>j<n. answers (Suc k + j) = Inr ''PROCESSING''"
    using Suc.prems(2) by (metis Suc_less_eq add_Suc_right add_Suc)
  have last: "answers (Suc k + n) = Inr s" using Suc.prems(3) by simp
  have "poll_loop interval answers k f w =
        poll_loop interval answers (Suc k) (f\<lparr>state_name := ''PROCESSING''\<rparr>)
           (record_event (PollFile (name f)) (record_event (Sleep interval) w))"
    by (subst poll_loop.simps) (simp add: Suc.prems(1) k)
  also have "\<dots> = Some (Inr (), f\<lparr>state_name := s\<rparr>,
                 w\<lparr>trace := trace w @ concat (replicate (Suc (Suc n)) [Sleep interval, PollFile (name f)])\<rparr>)"
    by (subst Suc.IH[OF _ rest last Suc.prems(4)]) (simp_all add: record_event_def)
  finally show ?case .
qed


section \<open>What the steps of a handler change\<close>

lemma record_event_fields [simp]:
  "db (record_event ev w) = db w"
  "user_last_request (record_event ev w) = user_last_request w"
  "local_files (record_event ev w) = local_files w"
  "remote_files (record_event ev w) = remote_files w"
  "trace (record_event ev w) = trace w @ [ev]"
  by (simp_all add: record_event_def)

lemma mark_fields [simp]:
  "db (mark e u w) = db w"
  "user_last_request (mark e u w) = update_user_timestamp (clock_mark e) (user_last_request w) u"
  "local_files (mark e u w) = local_files w"
  "remote_files (mark e u w) = remote_files w"
  "trace (mark e u w) = trace w"
  by (simp_all add: mark_def)

lemma send_fields [simp]:
  "fst (send e r w) = (case telegram e r of None \<Rightarrow> Inr () | Some x \<Rightarrow> Inl x)"
  "db (snd (send e r w)) = db w"
  "user_last_request (snd (send e r w)) = user_last_request w"
  "local_files (snd (send e r w)) = local_files w"
  "remote_files (snd (send e r w)) = remote_files w"
  "trace (snd (send e r w)) = trace w @ [Reply r]"
  by (simp_all add: send_def)

lemma store_turns_fields [simp]:
  "user_last_request (snd (store_turns e u t x w)) = user_last_request w"
  "local_files (snd (store_turns e u t x w)) = local_files w"
  "remote_files (snd (store_turns e u t x w)) = remote_files w"
  "trace (snd (store_turns e u t x w)) = trace w"
  by (simp_all add: store_turns_def split: option.split)

lemma store_turns_result:
  assumes "store_turns e u t x w = (r, w')"
  shows "user_last_request w' = user_last_request w" "local_files w' = local_files w"
    "remote_files w' = remote_files w" "trace w' = trace w"
  using store_turns_fields [of e u t x w] assms by simp_all

lemma answer_frame:
  "user_last_request (snd (answer e u t w)) = user_last_request w"
  "local_files (snd (answer e u t w)) = local_files w"
  "remote_files (snd (answer e u t w)) = remote_files w"
  by (auto simp add: answer_def Let_def store_turns_result
      split: option.split sum.split prod.split)

lemma answer_trace:
  "\<exists>evs. trace (snd (answer e u t w)) = trace w @ evs \<and>
         set evs \<subseteq> {ReadHistory u, Generate} \<union> range Reply"
  by (auto simp add: answer_def Let_def store_turns_result
      split: option.split sum.split prod.split)

lemma poll_loop_frame:
  assumes "poll_loop i a k f w = Some y"
  shows "name (fst (snd y)) = name f \<and> db (snd (snd y)) = db w \<and>
         user_last_request (snd (snd y)) = user_last_request w \<and>
         local_files (snd (snd y)) = local_files w \<and>
         remote_files (snd (snd y)) = remote_files w \<and>
         (\<exists>evs. trace (snd (snd y)) = trace w @ evs \<and> set evs \<subseteq> {Sleep i, PollFile (name f)})"
  using assms
proof (rule poll_loop.raw_induct [rotated,
        where P = "\<lambda>i a k f w y. name (fst (snd y)) = name f \<and> db (snd (snd y)) = db w \<and>
         user_last_request (snd (snd y)) = user_last_request w \<and>
         local_files (snd (snd y)) = local_files w \<and>
         remote_files (snd (snd y)) = remote_files w \<and>
         (\<exists>evs. trace (snd (snd y)) = trace w @ evs \<and> set evs \<subseteq> {Sleep i, PollFile (name f)})"],
       goal_cases)
  case (1 pl i a k f w y)
  show ?case
  proof (cases "state_name f = ''PROCESSING''")
    case False
    with 1(2) show ?thesis by auto
  next
    case True
    show ?thesis
    proof (cases "a k")
      case (Inl x)
      with True 1(2) show ?thesis by auto
    next
      case (Inr s)
      with True 1(2) have
        "pl i a (Suc k) (f\<lparr>state_name := s\<rparr>)
           (record_event (PollFile (name f)) (record_event (Sleep i) w)) = Some y"
        by simp
      from 1(1)[OF this] show ?thesis by auto
    qed
  qed
qed

lemma answer_result:
  assumes "answer e u t w = (r, w')"
  shows "user_last_request w' = user_last_request w \<and> local_files w' = local_files w \<and>
         remote_files w' = remote_files w \<and>
         (\<exists>evs. trace w' = trace w @ evs \<and> (\<forall>q. Upload q \<notin> set evs))"
proof -
  from answer_trace[of e u t w] obtain evs where
    evs: "trace (snd (answer e u t w)) = trace w @ evs"
         "set evs \<subseteq> {ReadHistory u, Generate} \<union> range Reply" by blast
  have "\<forall>q. Upload q \<notin> set evs" using evs(2) by auto
  with evs(1) assms answer_frame[of e u t w] show ?thesis by auto
qed

lemma media_upload_result:
  assumes "media_upload kind e u p w = Some (r, l, w')"
  shows "file_path l = Some p \<and> local_files w' = local_files w \<and>
         user_last_request w' = user_last_request w \<and>
         (case upload e of
            Inl x \<Rightarrow> gemini_file l = None \<and> remote_files w' = remote_files w
          | Inr f \<Rightarrow> (\<exists>f'. gemini_file l = Some f' \<and> name f' = name f) \<and>
                     remote_files w' = insert (name f) (remote_files w)) \<and>
         (\<exists>evs. trace w' = trace w @ Upload p # evs \<and> (\<forall>q. Upload q \<notin> set evs))"
proof (cases "upload e")
  case (Inl x)
  with assms show ?thesis by (auto simp add: media_upload_def Let_def)
next
  case (Inr f)
  let ?w1 = "(record_event (Upload p) w)\<lparr>remote_files := insert (name f) (remote_files (record_event (Upload p) w))\<rparr>"
  from assms Inr obtain y where
    y: "poll_loop (poll_interval kind) (poll e) 0 f ?w1 = Some y"
    by (auto simp add: media_upload_def Let_def split: option.splits)
  obtain r0 f' w2 where yy: "y = (r0, f', w2)" by (cases y) auto
  from poll_loop_frame[OF y] yy obtain evs where
    fr: "name f' = name f" "db w2 = db ?w1" "user_last_request w2 = user_last_request w"
        "local_files w2 = local_files w" "remote_files w2 = insert (name f) (remote_files w)"
        "trace w2 = trace w @ Upload p # evs"
        "set evs \<subseteq> {Sleep (poll_interval kind), PollFile (name f)}"
    by auto
  have noup: "\<forall>q. Upload q \<notin> set evs" using fr(7) by auto
  show ?thesis
  proof (cases "r0 = Inr () \<and> state_name f' \<noteq> ''FAILED''")
    case False
    with assms Inr y yy have "l = \<lparr>file_path = Some p, gemini_file = Some f'\<rparr> \<and> w' = w2"
      by (auto simp add: media_upload_def Let_def split: sum.splits if_splits)
    with fr noup Inr show ?thesis by auto
  next
    case True
    with assms Inr y yy obtain r' w3 where
      a: "answer e u (stored_text kind) w2 = (r', w3)"
         "l = \<lparr>file_path = Some p, gemini_file = Some f'\<rparr>" "w' = w3"
      by (auto simp add: media_upload_def Let_def split: sum.splits if_splits prod.splits)
    from answer_result[OF a(1)] obtain evs2 where
      "user_last_request w3 = user_last_request w2" "local_files w3 = local_files w2"
      "remote_files w3 = remote_files w2" "trace w3 = trace w2 @ evs2" "\<forall>q. Upload q \<notin> set evs2"
      by auto
    with fr noup Inr a show ?thesis by auto
  qed
qed

lemma media_fetch_result:
  assumes "media_fetch kind e u w = Some (r, l, w')"
  shows "(file_path l = None \<or> file_path l = Some (temp_path kind (uuid e))) \<and>
         local_files w' \<subseteq> insert (temp_path kind (uuid e)) (local_files w) \<and>
         (file_path l = None \<longrightarrow> local_files w' = local_files w) \<and>
         user_last_request w' = user_last_request w \<and>
         (gemini_file l = None \<longrightarrow> remote_files w' = remote_files w) \<and>
         (\<forall>f'. gemini_file l = Some f' \<longrightarrow>
            (\<exists>f. upload e = Inr f \<and> name f' = name f \<and>
                 remote_files w' = insert (name f) (remote_files w))) \<and>
         (\<exists>evs. trace w' = trace w @ evs \<and>
            (\<forall>q. Upload q \<in> set evs \<longrightarrow>
               q = temp_path kind (uuid e) \<and> file_path l = Some q \<and>
               (\<forall>f. upload e = Inr f \<longrightarrow> (\<exists>f'. gemini_file l = Some f' \<and> name f' = name f))))"
proof (cases "get_file e = None \<and> download e = None")
  case False
  with assms show ?thesis
    by (auto simp add: media_fetch_def Let_def no_locals_def split: option.splits if_splits)
next
  case True
  let ?p = "temp_path kind (uuid e)"
  let ?w2 = "(record_event (Download ?p) (record_event GetFile w))\<lparr>local_files := insert ?p (local_files (record_event (Download ?p) (record_event GetFile w)))\<rparr>"
  from assms True have "media_upload kind e u ?p ?w2 = Some (r, l, w')"
    by (simp add: media_fetch_def Let_def)
  from media_upload_result[OF this] show ?thesis
    by (auto split: sum.splits)
qed

lemma media_try_result:
  assumes "media_try kind e u w = Some (r, l, w')"
  shows "(file_path l = None \<or> file_path l = Some (temp_path kind (uuid e))) \<and>
         local_files w' \<subseteq> insert (temp_path kind (uuid e)) (local_files w) \<and>
         (file_path l = None \<longrightarrow> local_files w' = local_files w) \<and>
         user_last_request w' =
           (case file_size e of
              None \<Rightarrow> user_last_request w
            | Some n \<Rightarrow> if n > MAX_FILE_SIZE then user_last_request w
                        else update_user_timestamp (clock_mark e) (user_last_request w) u) \<and>
         (gemini_file l = None \<longrightarrow> remote_files w' = remote_files w) \<and>
         (\<forall>f'. gemini_file l = Some f' \<longrightarrow>
            (\<exists>f. upload e = Inr f \<and> name f' = name f \<and>
                 remote_files w' = insert (name f) (remote_files w))) \<and>
         (\<exists>evs. trace w' = trace w @ evs \<and>
            (\<forall>q. Upload q \<in> set evs \<longrightarrow>
               q = temp_path kind (uuid e) \<and> file_path l = Some q \<and>
               (\<forall>f. upload e = Inr f \<longrightarrow> (\<exists>f'. gemini_file l = Some f' \<and> name f' = name f))))"
proof (cases "\<exists>n. file_size e = Some n \<and> \<not> n > MAX_FILE_SIZE \<and> model_loaded e \<and>
                (kind = VideoNote \<longrightarrow> telegram e VideoReceived = None) \<and> chat_action e = None")
  case False
  with assms show ?thesis
    by (auto simp add: media_try_def Let_def no_locals_def send_def
        split: option.splits if_splits prod.splits sum.splits)
next
  case True
  then obtain n where n: "file_size e = Some n" "\<not> n > MAX_FILE_SIZE" "model_loaded e"
    "kind = VideoNote \<longrightarrow> telegram e VideoReceived = None" "chat_action e = None" by blast
  let ?w2 = "if kind = VideoNote then record_event (Reply VideoReceived) (mark e u w) else mark e u w"
  from assms n have "media_fetch kind e u (record_event ChatAction ?w2) = Some (r, l, w')"
    by (auto simp add: media_try_def Let_def send_def split: if_splits)
  from media_fetch_result[OF this] n show ?thesis
    by (auto split: if_splits)
qed


section \<open>Properties of the handlers\<close>

lemma media_except_result:
  assumes "media_except kind e (r0, l, w1) = (r1, l', w2)"
  shows "l' = l \<and> db w2 = db w1 \<and> user_last_request w2 = user_last_request w1 \<and>
         local_files w2 = local_files w1 \<and> remote_files w2 = remote_files w1 \<and>
         (trace w2 = trace w1 \<or> trace w2 = trace w1 @ [Reply (MediaFailed kind)])"
  using assms
  by (auto simp add: media_except_def send_def split: sum.splits exn.splits prod.splits)

lemma media_finally_result:
  assumes "media_finally e (r1, l, w1) = (r, w')"
  shows "db w' = db w1 \<and> user_last_request w' = user_last_request w1 \<and>
         (unlink e = None \<longrightarrow> local_files w' = local_files w1 - set_option (file_path l)) \<and>
         (unlink e = None \<longrightarrow> delete_file e = None \<longrightarrow>
            r = r1 \<and> remote_files w' = remote_files w1 - name ` set_option (gemini_file l)) \<and>
         (\<exists>evs. trace w' = trace w1 @ evs \<and> (\<forall>q. Upload q \<notin> set evs) \<and>
            (unlink e = None \<longrightarrow>
               (\<forall>f. gemini_file l = Some f \<longrightarrow> DeleteFile (name f) \<in> set evs)))"
  using assms
  by (auto simp add: media_finally_def unlink_temp_def delete_remote_def
      split: option.splits if_splits)

text \<open>
  C2, amended: whenever a voice or video-note handler returns or lets an exception escape, and
  it has called the upload during that request, then, provided \<^verbatim>\<open>file_path.unlink()\<close> does not
  raise, the temporary file it uploaded is no longer in the local directory and, if the upload
  returned a remote file, \<^verbatim>\<open>genai.delete_file\<close> has been called for it during the request;
  provided that call does not raise either, the remote file is no longer held by the remote
  service. This covers success, the state \<^verbatim>\<open>FAILED\<close>, a raising poll, a raising inference call
  and a raising reply.
\<close>

theorem cleanup_unless_deletion_raises:
  assumes "handle_media kind e user_id w = Some (r, w')"
    and "trace w' = trace w @ evs" and "Upload p \<in> set evs"
  shows "p = temp_path kind (uuid e) \<and>
         (unlink e = None \<longrightarrow> p \<notin> local_files w') \<and>
         (\<forall>f. upload e = Inr f \<longrightarrow> unlink e = None \<longrightarrow>
            DeleteFile (name f) \<in> set evs \<and>
            (delete_file e = None \<longrightarrow> name f \<notin> remote_files w'))"
proof (cases "on_cooldown e user_id (command_type kind) w")
  case True
  with assms show ?thesis by (auto simp add: handle_media_def)
next
  case False
  with assms(1) obtain r0 l w1 where
    t: "media_try kind e user_id w = Some (r0, l, w1)"
    and f: "media_finally e (media_except kind e (r0, l, w1)) = (r, w')"
    by (auto simp add: handle_media_def split: option.splits)
  obtain r1 l' w2 where x: "media_except kind e (r0, l, w1) = (r1, l', w2)"
    by (cases "media_except kind e (r0, l, w1)") auto
  from media_except_result[OF x] have
    x': "l' = l" "local_files w2 = local_files w1" "remote_files w2 = remote_files w1"
        "trace w2 = trace w1 \<or> trace w2 = trace w1 @ [Reply (MediaFailed kind)]" by auto
  from f x x' have f': "media_finally e (r1, l, w2) = (r, w')" by simp
  from media_finally_result[OF f'] obtain evs3 where
    c: "unlink e = None \<longrightarrow> local_files w' = local_files w2 - set_option (file_path l)"
       "unlink e = None \<longrightarrow> delete_file e = None \<longrightarrow>
          remote_files w' = remote_files w2 - name ` set_option (gemini_file l)"
       "trace w' = trace w2 @ evs3" "\<forall>q. Upload q \<notin> set evs3"
       "unlink e = None \<longrightarrow> (\<forall>f. gemini_file l = Some f \<longrightarrow> DeleteFile (name f) \<in> set evs3)"
    by auto
  from media_try_result[OF t] obtain evs1 where
    a: "file_path l = None \<or> file_path l = Some (temp_path kind (uuid e))"
       "local_files w1 \<subseteq> insert (temp_path kind (uuid e)) (local_files w)"
       "\<forall>f'. gemini_file l = Some f' \<longrightarrow>
            (\<exists>f. upload e = Inr f \<and> name f' = name f \<and>
                 remote_files w1 = insert (name f) (remote_files w))"
       "trace w1 = trace w @ evs1"
       "\<forall>q. Upload q \<in> set evs1 \<longrightarrow>
               q = temp_path kind (uuid e) \<and> file_path l = Some q \<and>
               (\<forall>f. upload e = Inr f \<longrightarrow> (\<exists>f'. gemini_file l = Some f' \<and> name f' = name f))"
    by auto
  from x'(4) a(4) c(3) assms(2) have
    evs: "evs = evs1 @ evs3 \<or> evs = evs1 @ [Reply (MediaFailed kind)] @ evs3" by auto
  with assms(3) c(4) have up: "Upload p \<in> set evs1" by auto
  with a(5) have p: "p = temp_path kind (uuid e)" "file_path l = Some p"
    "\<forall>f. upload e = Inr f \<longrightarrow> (\<exists>f'. gemini_file l = Some f' \<and> name f' = name f)" by auto
  have 1: "p \<notin> local_files w'" if "unlink e = None"
    using c(1) p(2) that by simp
  have 2: "DeleteFile (name f) \<in> set evs \<and> (delete_file e = None \<longrightarrow> name f \<notin> remote_files w')"
    if "upload e = Inr f" "unlink e = None" for f
  proof -
    from p(3) that(1) obtain f' where f': "gemini_file l = Some f'" "name f' = name f" by blast
    from c(5) that(2) f' evs have "DeleteFile (name f) \<in> set evs" by auto
    moreover from c(2) that(2) f' have "delete_file e = None \<longrightarrow> name f \<notin> remote_files w'"
      by auto
    ultimately show ?thesis by simp
  qed
  from p(1) 1 2 show ?thesis by blast
qed

text \<open>
  C6: a voice message or video note whose declared size exceeds 20 MiB is answered with the
  too-large reply (followed by the generic failure reply if sending the first one raised) and
  nothing else happens: no download, no upload, no local or remote file, no change of the
  database or of the throttle.
\<close>

theorem too_large_media_is_rejected:
  assumes "\<not> on_cooldown e user_id (command_type kind) w"
    and "file_size e = Some n" and "MAX_FILE_SIZE < n"
  shows "\<exists>r w'. handle_media kind e user_id w = Some (r, w') \<and>
           trace w' = trace w @ Reply (TooLarge kind) #
             (case telegram e (TooLarge kind) of
                Some (Exception msg) \<Rightarrow> [Reply (MediaFailed kind)] | _ \<Rightarrow> []) \<and>
           local_files w' = local_files w \<and> remote_files w' = remote_files w \<and>
           db w' = db w \<and> user_last_request w' = user_last_request w"
  using assms
  by (auto simp add: handle_media_def media_try_def media_except_def media_finally_def send_def
      unlink_temp_def delete_remote_def no_locals_def record_event_def
      split: option.splits exn.splits)

lemma buttons_distinct:
  "ASK_BUTTON \<noteq> FACT_BUTTON" "ASK_BUTTON \<noteq> SETTINGS_BUTTON" "FACT_BUTTON \<noteq> SETTINGS_BUTTON"
  by (simp_all add: ASK_BUTTON_def FACT_BUTTON_def SETTINGS_BUTTON_def)

lemma ascii_hi: "ascii ''hi'' \<noteq> ASK_BUTTON" "ascii ''hi'' \<noteq> FACT_BUTTON" "ascii ''hi'' \<noteq> SETTINGS_BUTTON"
  by (simp_all add: ASK_BUTTON_def FACT_BUTTON_def SETTINGS_BUTTON_def ascii_def)

text \<open>
  C4, as stated, fails: a request rejected by the throttle is not answered at all. User 42
  is on cooldown; the handler logs a warning and returns, and no reply is sent.
\<close>

theorem rejected_request_gets_no_reply:
  "on_cooldown (example_env\<lparr>clock_check := 1\<rparr>) 42 ''text'' example_world \<and>
   handle_message (example_env\<lparr>clock_check := 1\<rparr>) 42 (ascii ''hi'') example_world =
     (Inr (), example_world\<lparr>trace := [LogWarning 42 ''text'']\<rparr>)"
  by (simp add: handle_message_def on_cooldown_def is_user_on_cooldown_def cooldown_period_def
      COOLDOWNS_def example_env_def example_world_def record_event_def ascii_hi)

text \<open>
  C4, amended: a request that the throttle rejects is dropped silently. The handler writes a
  warning to the log and returns; it sends nothing to the user, reads no history, calls no
  inference, and leaves the throttle, the database and the files as they were. This holds for
  plain text, for the two buttons that are throttled, and for voice messages and video notes.
\<close>

theorem rejected_request_is_dropped:
  "(on_cooldown e user_id ''text'' w \<longrightarrow>
      message_text \<notin> {ASK_BUTTON, FACT_BUTTON, SETTINGS_BUTTON} \<longrightarrow>
      handle_message e user_id message_text w =
        (Inr (), record_event (LogWarning user_id ''text'') w)) \<and>
   (on_cooldown e user_id ''fact'' w \<longrightarrow>
      handle_message e user_id FACT_BUTTON w =
        (Inr (), record_event (LogWarning user_id ''fact'') w)) \<and>
   (on_cooldown e user_id ''settings'' w \<longrightarrow>
      handle_message e user_id SETTINGS_BUTTON w =
        (Inr (), record_event (LogWarning user_id ''settings'') w)) \<and>
   (on_cooldown e user_id (command_type kind) w \<longrightarrow>
      handle_media kind e user_id w =
        Some (Inr (), record_event (LogWarning user_id (command_type kind)) w))"
  using buttons_distinct
  by (auto simp add: handle_message_def random_fact_def settings_menu_def handle_media_def)

theorem rejected_request_is_dropped_witness:
  "on_cooldown (example_env\<lparr>clock_check := 1\<rparr>) 42 ''text'' example_world \<and>
   ascii ''hi'' \<notin> {ASK_BUTTON, FACT_BUTTON, SETTINGS_BUTTON} \<and>
   handle_message (example_env\<lparr>clock_check := 1\<rparr>) 42 (ascii ''hi'') example_world =
     (Inr (), record_event (LogWarning 42 ''text'') example_world) \<and>
   on_cooldown (example_env\<lparr>clock_check := 1\<rparr>) 42 ''fact'' example_world \<and>
   handle_message (example_env\<lparr>clock_check := 1\<rparr>) 42 FACT_BUTTON example_world =
     (Inr (), record_event (LogWarning 42 ''fact'') example_world) \<and>
   on_cooldown (example_env\<lparr>clock_check := 1\<rparr>) 42 ''settings'' example_world \<and>
   handle_message (example_env\<lparr>clock_check := 1\<rparr>) 42 SETTINGS_BUTTON example_world =
     (Inr (), record_event (LogWarning 42 ''settings'') example_world) \<and>
   on_cooldown (example_env\<lparr>clock_check := 1\<rparr>) 42 (command_type Voice) example_world \<and>
   handle_media Voice (example_env\<lparr>clock_check := 1\<rparr>) 42 example_world =
     Some (Inr (), record_event (LogWarning 42 (command_type Voice)) example_world)"
proof -
  have c: "on_cooldown (example_env\<lparr>clock_check := 1\<rparr>) 42 ''text'' example_world"
    "on_cooldown (example_env\<lparr>clock_check := 1\<rparr>) 42 ''fact'' example_world"
    "on_cooldown (example_env\<lparr>clock_check := 1\<rparr>) 42 ''settings'' example_world"
    "on_cooldown (example_env\<lparr>clock_check := 1\<rparr>) 42 (command_type Voice) example_world"
    by (simp_all add: on_cooldown_def is_user_on_cooldown_def cooldown_period_def COOLDOWNS_def
        example_env_def example_world_def command_type_def)
  have b: "ascii ''hi'' \<notin> {ASK_BUTTON, FACT_BUTTON, SETTINGS_BUTTON}"
    using ascii_hi by simp
  show ?thesis
    using c b
      rejected_request_is_dropped [of "example_env\<lparr>clock_check := 1\<rparr>" 42 example_world
        "ascii ''hi''" Voice]
    by simp
qed

lemma handle_media_marks:
  assumes "handle_media kind e user_id w = Some (r, w')"
    and "\<not> on_cooldown e user_id (command_type kind) w"
  shows "user_last_request w' =
           (case file_size e of
              None \<Rightarrow> user_last_request w
            | Some n \<Rightarrow> if n > MAX_FILE_SIZE then user_last_request w
                        else update_user_timestamp (clock_mark e) (user_last_request w) user_id)"
proof -
  from assms obtain r0 l w1 where
    t: "media_try kind e user_id w = Some (r0, l, w1)"
    and f: "media_finally e (media_except kind e (r0, l, w1)) = (r, w')"
    by (auto simp add: handle_media_def split: option.splits)
  obtain r1 l' w2 where x: "media_except kind e (r0, l, w1) = (r1, l', w2)"
    by (cases "media_except kind e (r0, l, w1)") auto
  from f x have f': "media_finally e (r1, l', w2) = (r, w')" by simp
  from media_try_result[OF t] media_except_result[OF x] media_finally_result[OF f']
  show ?thesis by simp
qed

lemma answer_db_on_failure:
  "generate e = Inl x \<Longrightarrow> db (snd (answer e u t w)) = db w"
  by (simp add: answer_def Let_def split: option.split)

lemma handle_message_try_fields:
  "user_last_request (snd (handle_message_try e u t w)) =
     update_user_timestamp (clock_mark e) (user_last_request w) u"
  "generate e = Inl x \<Longrightarrow> db (snd (handle_message_try e u t w)) = db w"
  by (simp_all add: handle_message_try_def Let_def answer_frame answer_db_on_failure
      split: option.split)

lemma random_fact_try_fields:
  "user_last_request (snd (random_fact_try e u w)) =
     update_user_timestamp (clock_mark e) (user_last_request w) u"
  "db (snd (random_fact_try e u w)) = db w"
  by (simp_all add: random_fact_try_def Let_def split: option.split sum.split)

text \<open>
  C8, as stated, fails: the timestamp is written before the handler looks at the model. With
  no model loaded, an admitted text message of user 42 is dropped, and the user's timestamp
  has moved from 0 to the time of the request.
\<close>

theorem timestamp_updated_when_model_missing:
  "\<not> model_loaded (example_env\<lparr>model_loaded := False\<rparr>) \<and>
   \<not> on_cooldown (example_env\<lparr>model_loaded := False\<rparr>) 42 ''text'' example_world \<and>
   user_last_request example_world 42 = 0 \<and>
   handle_message (example_env\<lparr>model_loaded := False\<rparr>) 42 (ascii ''hi'') example_world =
     (Inr (), example_world\<lparr>user_last_request := (\<lambda>_. 0)(42 := 1000)\<rparr>)"
  by (simp add: handle_message_def handle_message_try_def on_cooldown_def is_user_on_cooldown_def
      cooldown_period_def COOLDOWNS_def example_env_def example_world_def mark_def
      update_user_timestamp_def ascii_hi)

text \<open>
  C8, amended: the timestamp is updated as soon as a request is admitted, before the handler
  checks that the model is available, whatever happens afterwards. For text messages and the
  random fact this is the first step after admission. For voice messages and video notes it
  follows the size check: the timestamp is updated when the declared size is within the
  limit, and left alone when the size is over the limit or missing.
\<close>

theorem timestamp_updated_on_admission:
  "(\<not> on_cooldown e user_id ''text'' w \<longrightarrow>
      message_text \<notin> {ASK_BUTTON, FACT_BUTTON, SETTINGS_BUTTON} \<longrightarrow>
      user_last_request (snd (handle_message e user_id message_text w)) =
        update_user_timestamp (clock_mark e) (user_last_request w) user_id) \<and>
   (\<not> on_cooldown e user_id ''fact'' w \<longrightarrow>
      user_last_request (snd (random_fact e user_id w)) =
        update_user_timestamp (clock_mark e) (user_last_request w) user_id) \<and>
   (\<not> on_cooldown e user_id (command_type kind) w \<longrightarrow>
      handle_media kind e user_id w = Some (r, w') \<longrightarrow>
      user_last_request w' =
        (case file_size e of
           None \<Rightarrow> user_last_request w
         | Some n \<Rightarrow> if n > MAX_FILE_SIZE then user_last_request w
                     else update_user_timestamp (clock_mark e) (user_last_request w) user_id))"
proof (intro conjI impI)
  assume a: "\<not> on_cooldown e user_id ''text'' w"
    "message_text \<notin> {ASK_BUTTON, FACT_BUTTON, SETTINGS_BUTTON}"
  obtain r0 w1 where t: "handle_message_try e user_id message_text w = (r0, w1)"
    by (cases "handle_message_try e user_id message_text w") auto
  from handle_message_try_fields(1)[of e user_id message_text w] t
  have "user_last_request w1 =
          update_user_timestamp (clock_mark e) (user_last_request w) user_id" by simp
  with a t show "user_last_request (snd (handle_message e user_id message_text w)) =
        update_user_timestamp (clock_mark e) (user_last_request w) user_id"
    by (auto simp add: handle_message_def split: sum.splits exn.splits)
next
  assume a: "\<not> on_cooldown e user_id ''fact'' w"
  obtain r0 w1 where t: "random_fact_try e user_id w = (r0, w1)"
    by (cases "random_fact_try e user_id w") auto
  from random_fact_try_fields(1)[of e user_id w] t
  have "user_last_request w1 =
          update_user_timestamp (clock_mark e) (user_last_request w) user_id" by simp
  with a t show "user_last_request (snd (random_fact e user_id w)) =
        update_user_timestamp (clock_mark e) (user_last_request w) user_id"
    by (auto simp add: random_fact_def split: sum.splits exn.splits)
next
  assume "\<not> on_cooldown e user_id (command_type kind) w"
    and "handle_media kind e user_id w = Some (r, w')"
  then show "user_last_request w' =
        (case file_size e of
           None \<Rightarrow> user_last_request w
         | Some n \<Rightarrow> if n > MAX_FILE_SIZE then user_last_request w
                     else update_user_timestamp (clock_mark e) (user_last_request w) user_id)"
    using handle_media_marks by blast
qed

lemma settings_menu_db: "db (snd (settings_menu e c u w)) = db w"
  by (simp add: settings_menu_def Let_def split: option.split)

lemma random_fact_db: "db (snd (random_fact e u w)) = db w"
proof -
  obtain r0 w1 where t: "random_fact_try e u w = (r0, w1)"
    by (cases "random_fact_try e u w") auto
  from random_fact_try_fields(2)[of e u w] t have "db w1 = db w" by simp
  with t show ?thesis
    by (auto simp add: random_fact_def split: sum.splits exn.splits)
qed

text \<open>
  C5: when the inference call raises, the text handler leaves the database as it was, so the
  window of every user is what it was before the request; and when the exception is one that
  \<^verbatim>\<open>except Exception\<close> catches, the last thing the handler does is to send the generic
  failure reply.
\<close>

theorem failed_inference_keeps_history:
  assumes "generate e = Inl x"
  shows "db (snd (handle_message e user_id message_text w)) = db w \<and>
         get_history ob fo (db (snd (handle_message e user_id message_text w))) u =
           get_history ob fo (db w) u \<and>
         (x = Exception msg \<longrightarrow>
          message_text \<notin> {ASK_BUTTON, FACT_BUTTON, SETTINGS_BUTTON} \<longrightarrow>
          \<not> on_cooldown e user_id ''text'' w \<longrightarrow> model_loaded e \<longrightarrow> chat_action e = None \<longrightarrow>
          get_history (order_by e) (py_float e) (db w) user_id \<noteq> None \<longrightarrow>
          trace (snd (handle_message e user_id message_text w)) =
            trace w @ [ChatAction, ReadHistory user_id, Generate, Reply TextFailed])"
proof -
  obtain r0 w1 where t0: "handle_message_try e user_id message_text w = (r0, w1)"
    by (cases "handle_message_try e user_id message_text w") auto
  from handle_message_try_fields(2)[OF assms, of user_id message_text w] t0
  have "db w1 = db w" by simp
  with t0 have d: "db (snd (handle_message e user_id message_text w)) = db w"
    by (auto simp add: handle_message_def settings_menu_db random_fact_db
        split: sum.splits exn.splits)
  have t: "trace (snd (handle_message e user_id message_text w)) =
            trace w @ [ChatAction, ReadHistory user_id, Generate, Reply TextFailed]"
    if "x = Exception msg" "message_text \<notin> {ASK_BUTTON, FACT_BUTTON, SETTINGS_BUTTON}"
       "\<not> on_cooldown e user_id ''text'' w" "model_loaded e" "chat_action e = None"
       "get_history (order_by e) (py_float e) (db w) user_id \<noteq> None"
    using that assms
    by (auto simp add: handle_message_def handle_message_try_def Let_def answer_def)
  from d t show ?thesis by simp
qed

lemma poll_loop_done:
  "state_name f \<noteq> ''PROCESSING'' \<Longrightarrow> poll_loop i a k f w = Some (Inr (), f, w)"
  by (subst poll_loop.simps) simp

lemma example_admits:
  "\<not> on_cooldown example_env 42 c example_world"
  "\<not> on_cooldown failing_env 42 c example_world"
  "\<not> on_cooldown stuck_env 42 c example_world"
  "\<not> on_cooldown (failing_env\<lparr>unlink := ux\<rparr>) 42 c example_world"
  "\<not> on_cooldown (failing_env\<lparr>delete_file := dx\<rparr>) 42 c example_world"
  by (auto simp add: on_cooldown_def is_user_on_cooldown_def cooldown_period_def COOLDOWNS_def
      example_env_def failing_env_def stuck_env_def example_world_def)

lemma empty_history: "get_history sqlite_order_by fo init_db 42 = Some []"
  by (simp add: get_history_def get_history_limit_def sqlite_integer_def select_history_def
      sql_limit_def init_db_def Let_def sqlite_order_by_def)

lemma failing_run:
  "handle_media Voice failing_env 42 example_world =
     Some (Inr (),
           example_world\<lparr>user_last_request := (\<lambda>_. 0)(42 := 1000),
             trace := [ChatAction, GetFile, Download ''temp_audio/u1.ogg'',
                       Upload ''temp_audio/u1.ogg'', ReadHistory 42, Generate,
                       Reply (MediaFailed Voice), Unlink ''temp_audio/u1.ogg'',
                       DeleteFile ''files/a1'']\<rparr>)"
  apply (simp only: handle_media_def example_admits if_False)
  apply (simp add: media_try_def media_fetch_def media_upload_def
      poll_loop_done answer_def empty_history media_except_def media_finally_def send_def
      unlink_temp_def delete_remote_def
      failing_env_def example_env_def example_world_def MAX_FILE_SIZE_def mark_def
      update_user_timestamp_def record_event_def temp_path_def Let_def)
  done

lemma raising_unlink_run:
  "handle_media Voice (failing_env\<lparr>unlink := Some (Exception ''busy'')\<rparr>) 42 example_world =
     Some (Inl (Exception ''busy''),
           example_world\<lparr>user_last_request := (\<lambda>_. 0)(42 := 1000),
             local_files := {''temp_audio/u1.ogg''}, remote_files := {''files/a1''},
             trace := [ChatAction, GetFile, Download ''temp_audio/u1.ogg'',
                       Upload ''temp_audio/u1.ogg'', ReadHistory 42, Generate,
                       Reply (MediaFailed Voice), Unlink ''temp_audio/u1.ogg'']\<rparr>)"
  apply (simp only: handle_media_def example_admits if_False)
  apply (simp add: media_try_def media_fetch_def media_upload_def
      poll_loop_done answer_def empty_history media_except_def media_finally_def send_def
      unlink_temp_def delete_remote_def
      failing_env_def example_env_def example_world_def MAX_FILE_SIZE_def mark_def
      update_user_timestamp_def record_event_def temp_path_def Let_def)
  done

lemma raising_delete_file_run:
  "handle_media Voice (failing_env\<lparr>delete_file := Some (Exception ''unavailable'')\<rparr>) 42
     example_world =
     Some (Inl (Exception ''unavailable''),
           example_world\<lparr>user_last_request := (\<lambda>_. 0)(42 := 1000),
             remote_files := {''files/a1''},
             trace := [ChatAction, GetFile, Download ''temp_audio/u1.ogg'',
                       Upload ''temp_audio/u1.ogg'', ReadHistory 42, Generate,
                       Reply (MediaFailed Voice), Unlink ''temp_audio/u1.ogg'',
                       DeleteFile ''files/a1'']\<rparr>)"
  apply (simp only: handle_media_def example_admits if_False)
  apply (simp add: media_try_def media_fetch_def media_upload_def
      poll_loop_done answer_def empty_history media_except_def media_finally_def send_def
      unlink_temp_def delete_remote_def
      failing_env_def example_env_def example_world_def MAX_FILE_SIZE_def mark_def
      update_user_timestamp_def record_event_def temp_path_def Let_def)
  done

text \<open>
  C2, as stated, fails: the two deletions are themselves calls that can raise, and the
  \<^verbatim>\<open>finally\<close> block does not guard them. A voice message of user 42 is downloaded and
  uploaded, and the inference call raises. When \<^verbatim>\<open>file_path.unlink()\<close> raises, the handler
  ends with that exception, the temporary file is still in the local directory, and
  \<^verbatim>\<open>genai.delete_file\<close> is never called, so the remote file stays as well. When
  \<^verbatim>\<open>genai.delete_file\<close> raises, the handler ends with that exception and the remote file
  stays.
\<close>

theorem raising_deletion_skips_cleanup:
  "handle_media Voice (failing_env\<lparr>unlink := Some (Exception ''busy'')\<rparr>) 42 example_world =
     Some (Inl (Exception ''busy''),
           example_world\<lparr>user_last_request := (\<lambda>_. 0)(42 := 1000),
             local_files := {''temp_audio/u1.ogg''}, remote_files := {''files/a1''},
             trace := [ChatAction, GetFile, Download ''temp_audio/u1.ogg'',
                       Upload ''temp_audio/u1.ogg'', ReadHistory 42, Generate,
                       Reply (MediaFailed Voice), Unlink ''temp_audio/u1.ogg'']\<rparr>) \<and>
   handle_media Voice (failing_env\<lparr>delete_file := Some (Exception ''unavailable'')\<rparr>) 42
     example_world =
     Some (Inl (Exception ''unavailable''),
           example_world\<lparr>user_last_request := (\<lambda>_. 0)(42 := 1000),
             remote_files := {''files/a1''},
             trace := [ChatAction, GetFile, Download ''temp_audio/u1.ogg'',
                       Upload ''temp_audio/u1.ogg'', ReadHistory 42, Generate,
                       Reply (MediaFailed Voice), Unlink ''temp_audio/u1.ogg'',
                       DeleteFile ''files/a1'']\<rparr>)"
  using raising_unlink_run raising_delete_file_run by (rule conjI)

theorem cleanup_unless_deletion_raises_witness:
  "handle_media Voice failing_env 42 example_world =
     Some (Inr (),
           example_world\<lparr>user_last_request := (\<lambda>_. 0)(42 := 1000),
             trace := [ChatAction, GetFile, Download ''temp_audio/u1.ogg'',
                       Upload ''temp_audio/u1.ogg'', ReadHistory 42, Generate,
                       Reply (MediaFailed Voice), Unlink ''temp_audio/u1.ogg'',
                       DeleteFile ''files/a1'']\<rparr>) \<and>
   upload failing_env = Inr \<lparr>name = ''files/a1'', state_name = ''ACTIVE''\<rparr> \<and>
   unlink failing_env = None \<and> delete_file failing_env = None \<and>
   ''temp_audio/u1.ogg'' \<notin> local_files
      (example_world\<lparr>user_last_request := (\<lambda>_. 0)(42 := 1000),
             trace := [ChatAction, GetFile, Download ''temp_audio/u1.ogg'',
                       Upload ''temp_audio/u1.ogg'', ReadHistory 42, Generate,
                       Reply (MediaFailed Voice), Unlink ''temp_audio/u1.ogg'',
                       DeleteFile ''files/a1'']\<rparr>) \<and>
   ''files/a1'' \<notin> remote_files
      (example_world\<lparr>user_last_request := (\<lambda>_. 0)(42 := 1000),
             trace := [ChatAction, GetFile, Download ''temp_audio/u1.ogg'',
                       Upload ''temp_audio/u1.ogg'', ReadHistory 42, Generate,
                       Reply (MediaFailed Voice), Unlink ''temp_audio/u1.ogg'',
                       DeleteFile ''files/a1'']\<rparr>)"
proof -
  have u: "upload failing_env = Inr \<lparr>name = ''files/a1'', state_name = ''ACTIVE''\<rparr>"
    "unlink failing_env = None" "delete_file failing_env = None"
    by (simp_all add: failing_env_def example_env_def)
  have t: "trace (example_world\<lparr>user_last_request := (\<lambda>_. 0)(42 := 1000),
             trace := [ChatAction, GetFile, Download ''temp_audio/u1.ogg'',
                       Upload ''temp_audio/u1.ogg'', ReadHistory 42, Generate,
                       Reply (MediaFailed Voice), Unlink ''temp_audio/u1.ogg'',
                       DeleteFile ''files/a1'']\<rparr>) =
           trace example_world @ [ChatAction, GetFile, Download ''temp_audio/u1.ogg'',
                       Upload ''temp_audio/u1.ogg'', ReadHistory 42, Generate,
                       Reply (MediaFailed Voice), Unlink ''temp_audio/u1.ogg'',
                       DeleteFile ''files/a1'']"
    by (simp add: example_world_def)
  have m: "Upload ''temp_audio/u1.ogg'' \<in> set [ChatAction, GetFile, Download ''temp_audio/u1.ogg'',
                       Upload ''temp_audio/u1.ogg'', ReadHistory 42, Generate,
                       Reply (MediaFailed Voice), Unlink ''temp_audio/u1.ogg'',
                       DeleteFile ''files/a1'']"
    by simp
  from cleanup_unless_deletion_raises [OF failing_run t m] u failing_run
  show ?thesis by (simp add: example_world_def)
qed

theorem too_large_media_is_rejected_witness:
  "\<not> on_cooldown (example_env\<lparr>file_size := Some (21 * 1024 * 1024)\<rparr>) 42 (command_type Voice)
       example_world \<and>
   MAX_FILE_SIZE < 21 * 1024 * 1024 \<and>
   handle_media Voice (example_env\<lparr>file_size := Some (21 * 1024 * 1024)\<rparr>) 42 example_world =
     Some (Inr (), example_world\<lparr>trace := [Reply (TooLarge Voice)]\<rparr>)"
proof -
  have c: "\<not> on_cooldown (example_env\<lparr>file_size := Some (21 * 1024 * 1024)\<rparr>) 42
              (command_type Voice) example_world"
    by (simp add: on_cooldown_def is_user_on_cooldown_def cooldown_period_def COOLDOWNS_def
        example_env_def example_world_def command_type_def)
  have s: "file_size (example_env\<lparr>file_size := Some (21 * 1024 * 1024)\<rparr>) = Some (21 * 1024 * 1024)"
    by simp
  have m: "MAX_FILE_SIZE < 21 * 1024 * 1024" by (simp add: MAX_FILE_SIZE_def)
  from too_large_media_is_rejected [OF c s m]
  obtain r w' where
    h: "handle_media Voice (example_env\<lparr>file_size := Some (21 * 1024 * 1024)\<rparr>) 42 example_world
          = Some (r, w')"
    and t: "trace w' = trace example_world @ Reply (TooLarge Voice) #
             (case telegram (example_env\<lparr>file_size := Some (21 * 1024 * 1024)\<rparr>) (TooLarge Voice) of
                Some (Exception msg) \<Rightarrow> [Reply (MediaFailed Voice)] | _ \<Rightarrow> [])"
    by blast
  have "handle_media Voice (example_env\<lparr>file_size := Some (21 * 1024 * 1024)\<rparr>) 42 example_world =
     Some (Inr (), example_world\<lparr>trace := [Reply (TooLarge Voice)]\<rparr>)"
    using c
    by (simp add: handle_media_def media_try_def media_except_def media_finally_def send_def
        unlink_temp_def delete_remote_def
        MAX_FILE_SIZE_def example_env_def example_world_def record_event_def no_locals_def)
  with c m show ?thesis by simp
qed

lemma handle_media_stuck:
  assumes "\<not> on_cooldown e user_id (command_type kind) w"
    and "file_size e = Some n" and "n \<le> MAX_FILE_SIZE" and "model_loaded e"
    and "kind = VideoNote \<longrightarrow> telegram e VideoReceived = None"
    and "chat_action e = None" and "get_file e = None" and "download e = None"
    and "upload e = Inr f" and "state_name f = ''PROCESSING''"
    and "\<forall>j. poll e j = Inr ''PROCESSING''"
  shows "handle_media kind e user_id w = None"
proof -
  have p: "poll_loop (poll_interval kind) (poll e) 0 f w1 = None" for w1
    using assms(10,11) by (intro poll_loop_stuck) auto
  have u: "media_upload kind e user_id q w1 = None" for q w1
    using assms(9) p by (simp add: media_upload_def Let_def)
  have "media_fetch kind e user_id w1 = None" for w1
    using assms(7,8) u by (simp add: media_fetch_def Let_def)
  then have "media_try kind e user_id w = None"
    using assms(2-6) by (auto simp add: media_try_def Let_def send_def)
  then show ?thesis using assms(1) by (simp add: handle_media_def)
qed

text \<open>
  C9: the loop sleeps two seconds between polls for a voice message and five for a video
  note. It asks the remote service again as long as the state is \<^verbatim>\<open>PROCESSING\<close> and stops
  at the first other state, after exactly one sleep and one poll per round. There is no
  bound on the rounds: if every poll answers \<^verbatim>\<open>PROCESSING\<close>, the loop does not return, and
  neither does the handler that reached it.
\<close>

theorem polling_has_no_ceiling:
  "poll_interval Voice = 2 \<and> poll_interval VideoNote = 5 \<and>
   (state_name f = ''PROCESSING'' \<longrightarrow> (\<forall>j<n. answers j = Inr ''PROCESSING'') \<longrightarrow>
    answers n = Inr s \<longrightarrow> s \<noteq> ''PROCESSING'' \<longrightarrow>
      poll_loop i answers 0 f w =
        Some (Inr (), f\<lparr>state_name := s\<rparr>,
              w\<lparr>trace := trace w @ concat (replicate (Suc n) [Sleep i, PollFile (name f)])\<rparr>)) \<and>
   (state_name f = ''PROCESSING'' \<longrightarrow> (\<forall>j. answers j = Inr ''PROCESSING'') \<longrightarrow>
      poll_loop i answers 0 f w = None) \<and>
   (\<not> on_cooldown e user_id (command_type kind) w \<longrightarrow>
    file_size e = Some sz \<longrightarrow> sz \<le> MAX_FILE_SIZE \<longrightarrow> model_loaded e \<longrightarrow>
    (kind = VideoNote \<longrightarrow> telegram e VideoReceived = None) \<longrightarrow>
    chat_action e = None \<longrightarrow> get_file e = None \<longrightarrow> download e = None \<longrightarrow>
    upload e = Inr f \<longrightarrow> state_name f = ''PROCESSING'' \<longrightarrow>
    (\<forall>j. poll e j = Inr ''PROCESSING'') \<longrightarrow>
      handle_media kind e user_id w = None)"
proof (intro conjI impI)
  show "poll_interval Voice = 2" "poll_interval VideoNote = 5"
    by (simp_all add: poll_interval_def)
next
  assume "state_name f = ''PROCESSING''" "\<forall>j<n. answers j = Inr ''PROCESSING''"
    "answers n = Inr s" "s \<noteq> ''PROCESSING''"
  then show "poll_loop i answers 0 f w =
        Some (Inr (), f\<lparr>state_name := s\<rparr>,
              w\<lparr>trace := trace w @ concat (replicate (Suc n) [Sleep i, PollFile (name f)])\<rparr>)"
    using poll_loop_returns [of f n answers 0 s i w] by simp
next
  assume "state_name f = ''PROCESSING''" "\<forall>j. answers j = Inr ''PROCESSING''"
  then show "poll_loop i answers 0 f w = None"
    by (intro poll_loop_stuck) auto
next
  assume "\<not> on_cooldown e user_id (command_type kind) w"
    "file_size e = Some sz" "sz \<le> MAX_FILE_SIZE" "model_loaded e"
    "kind = VideoNote \<longrightarrow> telegram e VideoReceived = None"
    "chat_action e = None" "get_file e = None" "download e = None"
    "upload e = Inr f" "state_name f = ''PROCESSING''"
    "\<forall>j. poll e j = Inr ''PROCESSING''"
  then show "handle_media kind e user_id w = None"
    by (rule handle_media_stuck)
qed

theorem polling_has_no_ceiling_witness:
  "poll_loop 2 (\<lambda>k. Inr ''ACTIVE'') 0 \<lparr>name = ''files/a1'', state_name = ''PROCESSING''\<rparr>
     example_world =
     Some (Inr (), \<lparr>name = ''files/a1'', state_name = ''ACTIVE''\<rparr>,
           example_world\<lparr>trace := [Sleep 2, PollFile ''files/a1'']\<rparr>) \<and>
   poll_loop 2 (\<lambda>k. Inr ''PROCESSING'') 0 \<lparr>name = ''files/a1'', state_name = ''PROCESSING''\<rparr>
     example_world = None \<and>
   handle_media Voice stuck_env 42 example_world = None"
proof -
  have 1: "poll_loop 2 (\<lambda>k. Inr ''ACTIVE'') 0 \<lparr>name = ''files/a1'', state_name = ''PROCESSING''\<rparr>
     example_world =
     Some (Inr (), \<lparr>name = ''files/a1'', state_name = ''ACTIVE''\<rparr>,
           example_world\<lparr>trace := [Sleep 2, PollFile ''files/a1'']\<rparr>)"
    using polling_has_no_ceiling
      [where f = "\<lparr>name = ''files/a1'', state_name = ''PROCESSING''\<rparr>" and n = 0
         and answers = "\<lambda>k. Inr ''ACTIVE''" and s = "''ACTIVE''" and i = 2
         and w = example_world]
    by (simp add: example_world_def)
  have 2: "poll_loop 2 (\<lambda>k. Inr ''PROCESSING'') 0 \<lparr>name = ''files/a1'', state_name = ''PROCESSING''\<rparr>
     example_world = None"
    using polling_has_no_ceiling
      [where f = "\<lparr>name = ''files/a1'', state_name = ''PROCESSING''\<rparr>"
         and answers = "\<lambda>k. Inr ''PROCESSING''" and i = 2 and w = example_world]
    by simp
  have 3: "handle_media Voice stuck_env 42 example_world = None"
    using polling_has_no_ceiling
      [where f = "\<lparr>name = ''files/a1'', state_name = ''PROCESSING''\<rparr>"
         and e = stuck_env and user_id = 42 and kind = Voice and w = example_world
         and sz = 1024]
      example_admits(3) [of "command_type Voice"]
    by (simp add: stuck_env_def example_env_def MAX_FILE_SIZE_def)
  from 1 2 3 show ?thesis by simp
qed

theorem timestamp_updated_on_admission_witness:
  "\<not> on_cooldown example_env 42 ''text'' example_world \<and>
   ascii ''hi'' \<notin> {ASK_BUTTON, FACT_BUTTON, SETTINGS_BUTTON} \<and>
   user_last_request (snd (handle_message example_env 42 (ascii ''hi'') example_world)) =
     update_user_timestamp 1000 (\<lambda>_. 0) 42 \<and>
   \<not> on_cooldown example_env 42 ''fact'' example_world \<and>
   user_last_request (snd (random_fact example_env 42 example_world)) =
     update_user_timestamp 1000 (\<lambda>_. 0) 42 \<and>
   \<not> on_cooldown failing_env 42 (command_type Voice) example_world \<and>
   handle_media Voice failing_env 42 example_world =
     Some (Inr (),
           example_world\<lparr>user_last_request := (\<lambda>_. 0)(42 := 1000),
             trace := [ChatAction, GetFile, Download ''temp_audio/u1.ogg'',
                       Upload ''temp_audio/u1.ogg'', ReadHistory 42, Generate,
                       Reply (MediaFailed Voice), Unlink ''temp_audio/u1.ogg'',
                       DeleteFile ''files/a1'']\<rparr>) \<and>
   (\<lambda>_. 0)(42 := 1000) = update_user_timestamp 1000 (\<lambda>_. 0) (42 :: int)"
proof -
  have b: "ascii ''hi'' \<notin> {ASK_BUTTON, FACT_BUTTON, SETTINGS_BUTTON}"
    using ascii_hi by simp
  have c: "clock_mark example_env = 1000" "user_last_request example_world = (\<lambda>_. 0)"
    "clock_mark failing_env = 1000" "file_size failing_env = Some 1024"
    "\<not> 1024 > MAX_FILE_SIZE"
    by (simp_all add: example_env_def example_world_def failing_env_def MAX_FILE_SIZE_def)
  from timestamp_updated_on_admission
         [of example_env 42 example_world "ascii ''hi''" Voice "Inr ()" example_world]
       b c example_admits(1)
  have 1: "user_last_request (snd (handle_message example_env 42 (ascii ''hi'') example_world)) =
             update_user_timestamp 1000 (\<lambda>_. 0) 42"
    and 2: "user_last_request (snd (random_fact example_env 42 example_world)) =
             update_user_timestamp 1000 (\<lambda>_. 0) 42"
    by simp_all
  from timestamp_updated_on_admission
         [of failing_env 42 example_world "ascii ''hi''" Voice "Inr ()"
            "example_world\<lparr>user_last_request := (\<lambda>_. 0)(42 := 1000),
             trace := [ChatAction, GetFile, Download ''temp_audio/u1.ogg'',
                       Upload ''temp_audio/u1.ogg'', ReadHistory 42, Generate,
                       Reply (MediaFailed Voice), Unlink ''temp_audio/u1.ogg'',
                       DeleteFile ''files/a1'']\<rparr>"]
       c example_admits(2) failing_run
  have 3: "(\<lambda>_. 0)(42 := 1000) = update_user_timestamp 1000 (\<lambda>_. 0) (42 :: int)"
    by simp
  from 1 2 3 b example_admits failing_run show ?thesis by simp
qed

theorem failed_inference_keeps_history_witness:
  "generate failing_env = Inl (Exception ''boom'') \<and>
   db (snd (handle_message failing_env 42 (ascii ''hi'') example_world)) = db example_world \<and>
   get_history sqlite_order_by example_parse_float
      (db (snd (handle_message failing_env 42 (ascii ''hi'') example_world))) 42 =
     get_history sqlite_order_by example_parse_float (db example_world) 42 \<and>
   trace (snd (handle_message failing_env 42 (ascii ''hi'') example_world)) =
     [ChatAction, ReadHistory 42, Generate, Reply TextFailed]"
proof -
  have g: "generate failing_env = Inl (Exception ''boom'')"
    by (simp add: failing_env_def)
  have b: "ascii ''hi'' \<notin> {ASK_BUTTON, FACT_BUTTON, SETTINGS_BUTTON}"
    using ascii_hi by simp
  have m: "model_loaded failing_env" "chat_action failing_env = None"
    "order_by failing_env = sqlite_order_by" "py_float failing_env = example_parse_float"
    "db example_world = init_db" "trace example_world = []"
    by (simp_all add: failing_env_def example_env_def example_world_def)
  from failed_inference_keeps_history [OF g, of 42 "ascii ''hi''" example_world
         sqlite_order_by example_parse_float 42 "''boom''"]
       b m example_admits(2) [of "''text''"] empty_history [of example_parse_float]
  show ?thesis using g by simp
qed


section \<open>The JSON round trip\<close>

lemma hex_val_hex_digit: "hex_val (hex_digit n) = Some (n mod 16)"
proof -
  have "n mod 16 < 16" by simp
  then show ?thesis
    by (auto simp add: hex_val_def hex_digit_def Let_def)
qed

lemma hex_digits_sum:
  assumes "n < 0x10000"
  shows "4096 * (n div 4096 mod 16) + 256 * (n div 256 mod 16) + 16 * (n div 16 mod 16)
           + n mod 16 = (n :: nat)"
proof -
  define a where "a = n div 16"
  define b where "b = a div 16"
  define c where "c = b div 16"
  have d: "n div 256 = b" "n div 4096 = c"
    by (simp_all add: a_def b_def c_def div_mult2_eq)
  have "c < 16" using assms unfolding d(2)[symmetric] by simp
  then have c: "c mod 16 = c" by simp
  have 1: "n = 16 * a + n mod 16" by (simp add: a_def)
  have 2: "a = 16 * b + a mod 16" by (simp add: b_def)
  have 3: "b = 16 * c + b mod 16" by (simp add: c_def)
  have "4096 * c + 256 * (b mod 16) + 16 * (a mod 16) + n mod 16 = n"
    using 1 2 3 by linarith
  then show ?thesis by (simp add: d c a_def [symmetric])
qed

lemma decode_hex4:
  assumes "n < 0x10000"
  shows "decode_uXXXX (hex4 n @ xs) = Some n"
proof -
  have e: "n div 4096 mod 16 = n div 4096" using assms by simp
  show ?thesis
    using hex_digits_sum [OF assms] e
    by (simp add: decode_uXXXX_def hex4_def hex_val_hex_digit)
qed

lemma plain_str_Cons: "plain_str (c # s) \<Longrightarrow> c < 0x110000 \<and> plain_str s"
  by (cases s) auto

lemma escape_char_cases:
  assumes "c < 0x110000"
  obtains (short) e where "escape_char c = [BSL, e]" "e \<noteq> 0x75" "backslash e = Some c"
  | (literal) "escape_char c = [c]" "c \<noteq> BSL" "c \<noteq> DQ" "0x20 \<le> c"
  | (bmp) "escape_char c = u_escape c" "c < 0x10000"
  | (astral) hi lo where "escape_char c = u_escape hi @ u_escape lo"
      "high_surrogate hi" "low_surrogate lo"
      "0x10000 + ((hi - 0xD800) * 1024 + (lo - 0xDC00)) = c"
proof -
  consider "c = 0x5C \<or> c = 0x22 \<or> c = 0x08 \<or> c = 0x0C \<or> c = 0x0A \<or> c = 0x0D \<or> c = 0x09"
    | "c \<noteq> 0x5C" "c \<noteq> 0x22" "0x20 \<le> c" "c \<le> 0x7E"
    | "c \<noteq> 0x08" "c \<noteq> 0x0C" "c \<noteq> 0x0A" "c \<noteq> 0x0D" "c \<noteq> 0x09" "c < 0x20 \<or> 0x7E < c" "c < 0x10000"
    | "0x10000 \<le> c"
    by linarith
  then show ?thesis
  proof cases
    case 1
    then consider "c = 0x5C" | "c = 0x22" | "c = 0x08" | "c = 0x0C" | "c = 0x0A" | "c = 0x0D"
      | "c = 0x09" by blast
    then show ?thesis
    proof cases
      case 1
      then have "escape_char c = [BSL, 0x5C]" "(0x5C::nat) \<noteq> 0x75" "backslash 0x5C = Some c"
        by (simp_all add: escape_char_def backslash_def)
      then show ?thesis by (rule short)
    next
      case 2
      then have "escape_char c = [BSL, 0x22]" "(0x22::nat) \<noteq> 0x75" "backslash 0x22 = Some c"
        by (simp_all add: escape_char_def backslash_def)
      then show ?thesis by (rule short)
    next
      case 3
      then have "escape_char c = [BSL, 0x62]" "(0x62::nat) \<noteq> 0x75" "backslash 0x62 = Some c"
        by (simp_all add: escape_char_def backslash_def)
      then show ?thesis by (rule short)
    next
      case 4
      then have "escape_char c = [BSL, 0x66]" "(0x66::nat) \<noteq> 0x75" "backslash 0x66 = Some c"
        by (simp_all add: escape_char_def backslash_def)
      then show ?thesis by (rule short)
    next
      case 5
      then have "escape_char c = [BSL, 0x6E]" "(0x6E::nat) \<noteq> 0x75" "backslash 0x6E = Some c"
        by (simp_all add: escape_char_def backslash_def)
      then show ?thesis by (rule short)
    next
      case 6
      then have "escape_char c = [BSL, 0x72]" "(0x72::nat) \<noteq> 0x75" "backslash 0x72 = Some c"
        by (simp_all add: escape_char_def backslash_def)
      then show ?thesis by (rule short)
    next
      case 7
      then have "escape_char c = [BSL, 0x74]" "(0x74::nat) \<noteq> 0x75" "backslash 0x74 = Some c"
        by (simp_all add: escape_char_def backslash_def)
      then show ?thesis by (rule short)
    qed
  next
    case 2
    then show ?thesis by (intro literal) (auto simp add: escape_char_def)
  next
    case 3
    then show ?thesis by (intro bmp) (auto simp add: escape_char_def)
  next
    case 4
    let ?n = "c - 0x10000"
    have n: "?n < 1024 * 1024" using assms by simp
    then have d: "?n div 1024 < 1024" by simp
    show ?thesis
    proof (rule astral[of "0xD800 + ?n div 1024" "0xDC00 + ?n mod 1024"])
      show "escape_char c = u_escape (0xD800 + ?n div 1024) @ u_escape (0xDC00 + ?n mod 1024)"
        using 4 d by (simp add: escape_char_def)
      show "high_surrogate (0xD800 + ?n div 1024)" using d by (simp add: high_surrogate_def)
      show "low_surrogate (0xDC00 + ?n mod 1024)" by (simp add: low_surrogate_def)
      show "0x10000 + ((0xD800 + ?n div 1024 - 0xD800) * 1024 + (0xDC00 + ?n mod 1024 - 0xDC00)) = c"
        using 4 by simp
    qed
  qed
qed


lemma plain_str_pair:
  "plain_str (c # s) \<Longrightarrow> s \<noteq> [] \<Longrightarrow> \<not> (high_surrogate c \<and> low_surrogate (hd s))"
  by (cases s) auto

lemma length_hex4 [simp]: "length (hex4 n) = 4"
  by (simp add: hex4_def)

lemma surrogate_bounds:
  "high_surrogate c \<Longrightarrow> c < 0x10000" "low_surrogate c \<Longrightarrow> c < 0x10000"
  "high_surrogate c \<Longrightarrow> \<not> low_surrogate c"
  by (simp_all add: high_surrogate_def low_surrogate_def)

lemma next_escape:
  assumes "plain_str s" and "take 2 (concat (map escape_char s) @ DQ # rest) = [BSL, 0x75]"
  shows "\<exists>x. decode_uXXXX (drop 2 (concat (map escape_char s) @ DQ # rest)) = Some x \<and>
             (low_surrogate x \<longrightarrow> s \<noteq> [] \<and> hd s = x)"
proof (cases s)
  case Nil
  with assms(2) show ?thesis by simp
next
  case (Cons c s')
  with assms(1) have c: "c < 0x110000" using plain_str_Cons by blast
  from c show ?thesis
  proof (cases rule: escape_char_cases)
    case (short e)
    with assms(2) Cons show ?thesis by simp
  next
    case literal
    with assms(2) Cons show ?thesis by simp
  next
    case bmp
    then show ?thesis using Cons decode_hex4 [of c] by (simp add: u_escape_def)
  next
    case (astral hi lo)
    then show ?thesis
      using Cons decode_hex4 [of hi] surrogate_bounds [of hi] by (simp add: u_escape_def)
  qed
qed

lemma scanstring_encode:
  assumes "plain_str s"
  shows "scanstring (concat (map escape_char s) @ DQ # rest) = Some (s, rest)"
  using assms
proof (induction s)
  case Nil
  show ?case by simp
next
  case (Cons c s)
  let ?t = "concat (map escape_char s) @ DQ # rest"
  from Cons.prems have c: "c < 0x110000" and ps: "plain_str s"
    using plain_str_Cons by blast+
  from Cons.IH [OF ps] have ih: "scanstring ?t = Some (s, rest)" .
  from c show ?case
  proof (cases rule: escape_char_cases)
    case (short e)
    then show ?thesis using ih by (simp add: scan_char_def)
  next
    case literal
    then show ?thesis using ih by (simp add: scan_char_def)
  next
    case bmp
    have sc: "scan_char BSL (0x75 # hex4 c @ ?t) = Some (c, 5)"
    proof (cases "high_surrogate c \<and> take 2 ?t = [BSL, 0x75]")
      case False
      then show ?thesis
        using decode_hex4 [OF bmp(2)]
        by (auto simp add: scan_char_def high_surrogate_def)
    next
      case True
      from next_escape [OF ps] True obtain x where
        x: "decode_uXXXX (drop 2 ?t) = Some x" "low_surrogate x \<longrightarrow> s \<noteq> [] \<and> hd s = x"
        by blast
      have "\<not> low_surrogate x"
        using x(2) plain_str_pair [OF Cons.prems] True by auto
      then show ?thesis
        using decode_hex4 [OF bmp(2)] True x(1)
        by (auto simp add: scan_char_def high_surrogate_def low_surrogate_def)
    qed
    show ?thesis
      using bmp(1) sc ih by (simp add: u_escape_def)
  next
    case (astral hi lo)
    have sc: "scan_char BSL (0x75 # hex4 hi @ BSL # 0x75 # hex4 lo @ ?t) = Some (c, 11)"
      using decode_hex4 [of hi] decode_hex4 [of lo] surrogate_bounds [of hi]
        surrogate_bounds [of lo] astral(2,3,4)
      by (simp add: scan_char_def high_surrogate_def low_surrogate_def)
    show ?thesis
      using astral(1) sc ih by (simp add: u_escape_def)
  qed
qed

lemma scanstring_basestring:
  "plain_str s \<Longrightarrow> scanstring (tl (encode_basestring_ascii s) @ rest) = Some (s, rest)"
  using scanstring_encode [of s rest] by (simp add: encode_basestring_ascii_def)


lemma int_digits_all_digits: "\<forall>d\<in>set (int_digits n). is_digit d"
proof (induction n rule: int_digits.induct)
  case (1 n)
  show ?case
  proof (cases "n < 10")
    case True
    then show ?thesis by (subst int_digits.simps) (simp add: is_digit_def)
  next
    case False
    have "n mod 10 < 10" by simp
    then have "is_digit (48 + n mod 10)" by (simp add: is_digit_def)
    with False 1 show ?thesis by (subst int_digits.simps) simp
  qed
qed

lemma int_digits_nonempty: "int_digits n \<noteq> []"
  by (subst int_digits.simps) simp

lemma hd_int_digits:
  "hd (int_digits n) = 48 \<longleftrightarrow> n = 0"
proof (induction n rule: int_digits.induct)
  case (1 n)
  show ?case
  proof (cases "n < 10")
    case True
    then show ?thesis by (subst int_digits.simps) simp
  next
    case False
    then have "n div 10 \<noteq> 0" by simp
    with False 1 show ?thesis
      by (subst int_digits.simps) (simp add: int_digits_nonempty)
  qed
qed

lemma digits_value_int_digits: "digits_value (int_digits n) = n"
proof (induction n rule: int_digits.induct)
  case (1 n)
  show ?case
  proof (cases "n < 10")
    case True
    then show ?thesis by (subst int_digits.simps) (simp add: digits_value_def)
  next
    case False
    with 1 have "digits_value (int_digits (n div 10)) = n div 10" by simp
    with False show ?thesis
      by (subst int_digits.simps) (simp add: digits_value_def)
  qed
qed

lemma takeWhile_append_stop:
  assumes "rest = [] \<or> \<not> P (hd rest)"
  shows "takeWhile P (s @ rest) = takeWhile P s"
proof -
  have "takeWhile P rest = []" using assms by (cases rest) auto
  then show ?thesis by (induction s) auto
qed

lemma takeWhile_int_digits: "takeWhile is_digit (int_digits n) = int_digits n"
  using int_digits_all_digits [of n] by (simp add: takeWhile_eq_all_conv)

lemma delimited_stop:
  assumes "delimited rest"
  shows "rest = [] \<or> \<not> is_digit (hd rest)"
    "rest = [] \<or> (hd rest \<noteq> 0x2D \<and> hd rest \<noteq> 0x2B \<and> hd rest \<noteq> 0x2E \<and> hd rest \<noteq> 0x65 \<and>
       hd rest \<noteq> 0x45 \<and> hd rest \<noteq> 48)"
  using assms by (auto simp add: delimited_def is_digit_def)

lemma digits_append:
  assumes "delimited rest"
  shows "takeWhile is_digit (s @ rest) = takeWhile is_digit s"
  using delimited_stop(1) [OF assms] by (rule takeWhile_append_stop)

lemma match_integer_append:
  assumes "delimited rest"
  shows "match_integer (s @ rest) = match_integer s"
proof (cases s)
  case Nil
  show ?thesis
  proof (cases rest)
    case Nil
    with \<open>s = []\<close> show ?thesis by simp
  next
    case (Cons c cs)
    with assms have "c \<noteq> 0x2D" "c \<noteq> 48" "\<not> is_digit c"
      by (auto simp add: delimited_def is_digit_def)
    with Cons \<open>s = []\<close> show ?thesis by (simp add: match_integer_def)
  qed
next
  case (Cons c cs)
  note s = Cons
  show ?thesis
  proof (cases "c = 0x2D")
    case False
    with s digits_append [OF assms, of "c # cs"] show ?thesis
      by (simp add: match_integer_def Let_def)
  next
    case True
    show ?thesis
    proof (cases cs)
      case Nil
      have "match_integer (0x2D # rest) = []"
      proof (cases rest)
        case Nil
        then show ?thesis by (simp add: match_integer_def)
      next
        case (Cons d ds)
        with assms have "d \<noteq> 48" "\<not> is_digit d"
          by (auto simp add: delimited_def is_digit_def)
        with Cons show ?thesis by (simp add: match_integer_def)
      qed
      with s True Nil show ?thesis by (simp add: match_integer_def)
    next
      case (Cons d ds)
      with s True digits_append [OF assms, of "d # ds"] show ?thesis
        by (simp add: match_integer_def Let_def)
    qed
  qed
qed

lemma match_frac_append:
  assumes "delimited rest"
  shows "match_frac (s @ rest) = match_frac s"
proof (cases s)
  case Nil
  show ?thesis
  proof (cases rest)
    case Nil
    with \<open>s = []\<close> show ?thesis by simp
  next
    case (Cons c cs)
    with assms have "c \<noteq> 0x2E" by (auto simp add: delimited_def)
    with Cons \<open>s = []\<close> show ?thesis by (simp add: match_frac_def)
  qed
next
  case (Cons c cs)
  with digits_append [OF assms, of cs] show ?thesis by (simp add: match_frac_def)
qed

lemma match_exp_append:
  assumes "delimited rest"
  shows "match_exp (s @ rest) = match_exp s"
proof (cases s)
  case Nil
  show ?thesis
  proof (cases rest)
    case Nil
    with \<open>s = []\<close> show ?thesis by simp
  next
    case (Cons c cs)
    with assms have "c \<noteq> 0x65" "c \<noteq> 0x45" by (auto simp add: delimited_def)
    with Cons \<open>s = []\<close> show ?thesis by (simp add: match_exp_def)
  qed
next
  case (Cons c cs)
  note s = Cons
  show ?thesis
  proof (cases cs)
    case Nil
    have "takeWhile is_digit
            (drop (length (if rest \<noteq> [] \<and> (hd rest = 0x2B \<or> hd rest = 0x2D) then [hd rest] else []))
               rest) = []"
      using delimited_stop [OF assms] by (cases rest) auto
    with s Nil show ?thesis by (simp add: match_exp_def Let_def)
  next
    case (Cons d ds)
    with s digits_append [OF assms, of "d # ds"] digits_append [OF assms, of ds]
    show ?thesis by (simp add: match_exp_def Let_def)
  qed
qed

lemma length_match_integer: "length (match_integer s) \<le> length s"
proof -
  have "length (takeWhile is_digit xs) \<le> length xs" for xs :: pystr
    by (rule length_takeWhile_le)
  from this [of s] this [of "tl s"] show ?thesis
    by (cases s) (auto simp add: match_integer_def Let_def)
qed

lemma length_match_frac: "length (match_frac s) \<le> length s"
  using length_takeWhile_le [of is_digit "tl s"] by (cases s) (auto simp add: match_frac_def)

lemma length_match_exp: "length (match_exp s) \<le> length s"
proof (cases s)
  case Nil
  then show ?thesis by (simp add: match_exp_def)
next
  case (Cons c cs)
  have "length (takeWhile is_digit (drop n cs)) + n \<le> length cs" if "n \<le> length cs" for n
    using length_takeWhile_le [of is_digit "drop n cs"] that by simp
  from this [of 0] this [of 1] Cons show ?thesis
    by (cases cs) (auto simp add: match_exp_def Let_def)
qed

lemma NUMBER_RE_length:
  assumes "NUMBER_RE s = Some (i, f, x)"
  shows "length (i @ f @ x) \<le> length s"
proof -
  from assms have i: "i = match_integer s" and f: "f = match_frac (drop (length i) s)"
    and x: "x = match_exp (drop (length f) (drop (length i) s))"
    by (auto simp add: NUMBER_RE_def Let_def split: if_splits)
  have "length i \<le> length s" unfolding i by (rule length_match_integer)
  moreover have "length f \<le> length s - length i"
    using length_match_frac [of "drop (length i) s"] f by simp
  moreover have "length x \<le> length s - length i - length f"
    using length_match_exp [of "drop (length f) (drop (length i) s)"] x by simp
  ultimately show ?thesis by simp
qed

lemma NUMBER_RE_append:
  assumes "delimited rest"
  shows "NUMBER_RE (s @ rest) = NUMBER_RE s"
proof -
  let ?i = "match_integer s"
  let ?s1 = "drop (length ?i) s"
  let ?f = "match_frac ?s1"
  let ?s2 = "drop (length ?f) ?s1"
  have 1: "drop (length ?i) (s @ rest) = ?s1 @ rest"
    using length_match_integer [of s] by simp
  have 2: "drop (length ?f) (?s1 @ rest) = ?s2 @ rest"
    using length_match_frac [of ?s1] by simp
  show ?thesis
    unfolding NUMBER_RE_def Let_def
    by (simp only: match_integer_append [OF assms] 1 match_frac_append [OF assms] 2
        match_exp_append [OF assms])
qed

lemma match_number_append:
  assumes "delimited rest" and "match_number fo s = Some (v, r)"
  shows "match_number fo (s @ rest) = Some (v, r @ rest)"
proof -
  from assms(2) obtain i f x where n: "NUMBER_RE s = Some (i, f, x)"
    by (auto simp add: match_number_def split: option.splits)
  from NUMBER_RE_length [OF n]
  have "drop (length (i @ f @ x)) (s @ rest) = drop (length (i @ f @ x)) s @ rest" by simp
  with assms(2) n show ?thesis
    by (simp add: match_number_def NUMBER_RE_append [OF assms(1)])
qed

lemma match_integer_int_repr: "match_integer (int_repr i) = int_repr i"
proof (cases "i < 0")
  case True
  let ?n = "nat (- i)"
  have n: "?n \<noteq> 0" using True by simp
  obtain d ds where d: "int_digits ?n = d # ds"
    using int_digits_nonempty [of ?n] by (cases "int_digits ?n") auto
  have "d \<noteq> 48" using hd_int_digits [of ?n] d n by simp
  moreover have "takeWhile is_digit (d # ds) = d # ds"
    using takeWhile_int_digits [of ?n] d by simp
  ultimately show ?thesis
    using True d by (simp add: match_integer_def int_repr_def Let_def)
next
  case False
  let ?n = "nat i"
  obtain d ds where d: "int_digits ?n = d # ds"
    using int_digits_nonempty [of ?n] by (cases "int_digits ?n") auto
  have dd: "is_digit d" using int_digits_all_digits [of ?n] d by simp
  then have nm: "d \<noteq> 0x2D" by (auto simp add: is_digit_def)
  have tw: "takeWhile is_digit (d # ds) = d # ds"
    using takeWhile_int_digits [of ?n] d by simp
  show ?thesis
  proof (cases "?n = 0")
    case True
    then have "int_digits ?n = [48]" by (subst int_digits.simps) simp
    with False show ?thesis by (simp add: match_integer_def int_repr_def)
  next
    case n: False
    then have "d \<noteq> 48" using hd_int_digits [of ?n] d by simp
    with False d nm tw show ?thesis
      by (simp add: match_integer_def int_repr_def Let_def)
  qed
qed

lemma parse_int_int_repr: "parse_int (int_repr i) = i"
proof (cases "i < 0")
  case True
  then show ?thesis by (simp add: parse_int_def int_repr_def digits_value_int_digits)
next
  case False
  obtain d ds where d: "int_digits (nat i) = d # ds"
    using int_digits_nonempty [of "nat i"] by (cases "int_digits (nat i)") auto
  have "is_digit d" using int_digits_all_digits [of "nat i"] d by simp
  then have "d \<noteq> 0x2D" by (auto simp add: is_digit_def)
  with False d digits_value_int_digits [of "nat i"] show ?thesis
    by (simp add: parse_int_def int_repr_def)
qed

lemma int_repr_nonempty: "int_repr i \<noteq> []"
  using int_digits_nonempty by (simp add: int_repr_def)

lemma match_int_repr:
  assumes "delimited rest"
  shows "match_number fo (int_repr i @ rest) = Some (PyInt i, rest)"
proof -
  have "NUMBER_RE (int_repr i) = Some (int_repr i, [], [])"
    by (simp add: NUMBER_RE_def match_integer_int_repr int_repr_nonempty match_frac_def
        match_exp_def)
  then have "match_number fo (int_repr i) = Some (PyInt i, [])"
    by (simp add: match_number_def parse_int_int_repr)
  from match_number_append [OF assms this] show ?thesis by simp
qed

lemma match_float:
  assumes "delimited rest" and "float_token t"
  shows "match_number fo (t @ rest) = Some (PyFloat (fo t), rest)"
proof -
  from assms(2) have "match_number fo t = Some (PyFloat (fo t), [])"
    by (auto simp add: float_token_def match_number_def split: option.splits)
  from match_number_append [OF assms(1) this] show ?thesis by simp
qed

lemma match_integer_start:
  assumes "match_integer s \<noteq> []"
  shows "\<exists>c cs. s = c # cs \<and> (c = 0x2D \<or> is_digit c)"
proof (cases s)
  case Nil
  with assms show ?thesis by (simp add: match_integer_def)
next
  case (Cons c cs)
  show ?thesis
  proof (cases "c = 0x2D \<or> c = 48")
    case True
    with Cons show ?thesis by (auto simp add: is_digit_def)
  next
    case False
    with assms Cons have "is_digit c"
      by (auto simp add: match_integer_def Let_def split: if_splits)
    with Cons show ?thesis by simp
  qed
qed

lemma float_token_start:
  assumes "float_token t"
  shows "\<exists>c cs. t = c # cs \<and> (c = 0x2D \<or> is_digit c)"
proof -
  from assms have "match_integer t \<noteq> []"
    by (auto simp add: float_token_def NUMBER_RE_def Let_def split: option.splits if_splits)
  then show ?thesis by (rule match_integer_start)
qed

lemma ascii_only_simps [simp]:
  "ascii_only []" "ascii_only (c # s) \<longleftrightarrow> c < 128 \<and> ascii_only s"
  "ascii_only (s @ t) \<longleftrightarrow> ascii_only s \<and> ascii_only t"
  by (auto simp add: ascii_only_def)

lemma ascii_only_digits: "ascii_only (takeWhile is_digit s)"
  by (auto simp add: ascii_only_def is_digit_def dest: set_takeWhileD)

lemma ascii_only_match:
  "ascii_only (match_integer s)" "ascii_only (match_frac s)" "ascii_only (match_exp s)"
proof -
  show "ascii_only (match_integer s)"
    using ascii_only_digits by (simp add: match_integer_def Let_def)
  show "ascii_only (match_frac s)"
    using ascii_only_digits by (simp add: match_frac_def)
  show "ascii_only (match_exp s)"
    using ascii_only_digits by (auto simp add: match_exp_def Let_def)
qed

lemma float_token_ascii:
  assumes "float_token t"
  shows "ascii_only t"
proof -
  from assms obtain i f x where n: "NUMBER_RE t = Some (i, f, x)" and t: "i @ f @ x = t"
    by (auto simp add: float_token_def split: option.splits)
  from n have "ascii_only i" "ascii_only f" "ascii_only x"
    using ascii_only_match by (auto simp add: NUMBER_RE_def Let_def split: if_splits)
  with t show ?thesis by auto
qed

lemma ascii_lits:
  "ascii ''null'' = [110, 117, 108, 108]" "ascii ''true'' = [116, 114, 117, 101]"
  "ascii ''false'' = [102, 97, 108, 115, 101]" "ascii ''['' = [0x5B]" "ascii '']'' = [0x5D]"
  "ascii ''{'' = [0x7B]" "ascii ''}'' = [0x7D]" "ascii '', '' = [0x2C, 0x20]"
  "ascii '': '' = [0x3A, 0x20]" "ascii ''NaN'' = [78, 97, 78]"
  "ascii ''Infinity'' = [73, 110, 102, 105, 110, 105, 116, 121]"
  "ascii ''-Infinity'' = [0x2D, 73, 110, 102, 105, 110, 105, 116, 121]"
  by (simp_all add: ascii_def)

lemma plain_simps:
  "plain fr fo (PyList xs) \<longleftrightarrow> (\<forall>x\<in>set xs. plain fr fo x)"
  "plain fr fo (PyDict kvs) \<longleftrightarrow>
     (\<forall>kv\<in>set kvs. plain_key (fst kv) \<and> plain fr fo (snd kv)) \<and> distinct (map fst kvs)"
  by (auto simp add: list_all_iff)

lemma value_start_facts:
  "value_start c \<Longrightarrow> \<not> is_ws c \<and> c \<noteq> 0x5D \<and> c \<noteq> 0x7D \<and> c \<noteq> 0x2C"
  by (auto simp add: value_start_def is_ws_def is_digit_def)

lemma int_repr_start: "\<exists>c cs. int_repr i = c # cs \<and> (c = 0x2D \<or> is_digit c)"
proof (cases "i < 0")
  case True
  then show ?thesis by (simp add: int_repr_def)
next
  case False
  obtain d ds where d: "int_digits (nat i) = d # ds"
    using int_digits_nonempty [of "nat i"] by (cases "int_digits (nat i)") auto
  then have "is_digit d" using int_digits_all_digits [of "nat i"] by simp
  with d False show ?thesis by (simp add: int_repr_def)
qed

lemma parses_start:
  "parses fr fo v \<Longrightarrow> \<exists>c cs. json_dumps fr v = c # cs \<and> value_start c"
  by (simp add: parses_def)

lemma dropWhile_ws_dumps:
  "parses fr fo v \<Longrightarrow> dropWhile is_ws (json_dumps fr v @ rest) = json_dumps fr v @ rest"
  using parses_start [of fr fo v] value_start_facts by auto

lemma join_Cons: "xs \<noteq> [] \<Longrightarrow> join sep (x # xs) = x @ sep @ join sep xs"
  by (cases xs) auto

lemma parsesD:
  "parses fr fo v \<Longrightarrow> delimited rest \<Longrightarrow> cost v \<le> n \<Longrightarrow>
     parse_value fo n (json_dumps fr v @ rest) = Some (v, rest)"
  by (simp add: parses_def)

lemma delimited_simps [simp]:
  "delimited (0x2C # r)" "delimited (0x5D # r)" "delimited (0x7D # r)" "delimited []"
  by (simp_all add: delimited_def)

lemma parse_array_items:
  assumes "xs \<noteq> []" and "\<forall>x\<in>set xs. parses fr fo x"
    and "sum_list (map Suc (map cost xs)) \<le> n"
  shows "parse_array fo n (join [0x2C, 0x20] (map (json_dumps fr) xs) @ 0x5D # rest) = Some (xs, rest)"
  using assms
proof (induction xs arbitrary: n)
  case Nil
  then show ?case by simp
next
  case (Cons x xs)
  from Cons.prems(3) obtain m where m: "n = Suc m" "cost x \<le> m"
    "sum_list (map Suc (map cost xs)) \<le> m"
    by (cases n) auto
  from Cons.prems(2) have px: "parses fr fo x" by simp
  show ?case
  proof (cases "xs = []")
    case True
    have "parse_value fo m (json_dumps fr x @ 0x5D # rest) = Some (x, 0x5D # rest)"
      using parsesD [OF px _ m(2)] by simp
    then show ?thesis using True m(1) by (simp add: is_ws_def)
  next
    case False
    let ?tail = "join [0x2C, 0x20] (map (json_dumps fr) xs) @ 0x5D # rest"
    have 1: "parse_value fo m (json_dumps fr x @ 0x2C # 0x20 # ?tail) = Some (x, 0x2C # 0x20 # ?tail)"
      using parsesD [OF px _ m(2)] by simp
    obtain y ys where xs: "xs = y # ys" using False by (cases xs) auto
    from Cons.prems(2) xs have py: "parses fr fo y" by simp
    have "?tail = json_dumps fr y @
            (if ys = [] then [] else [0x2C, 0x20] @ join [0x2C, 0x20] (map (json_dumps fr) ys))
            @ 0x5D # rest"
      using xs by (cases ys) auto
    then have 2: "dropWhile is_ws (0x20 # ?tail) = ?tail"
      using dropWhile_ws_dumps [OF py] by (simp add: is_ws_def)
    have 3: "parse_array fo m ?tail = Some (xs, rest)"
      using Cons.IH [OF False _ m(3)] Cons.prems(2) by simp
    have "join [0x2C, 0x20] (map (json_dumps fr) (x # xs)) @ 0x5D # rest =
            json_dumps fr x @ 0x2C # 0x20 # ?tail"
      using False by (simp add: join_Cons)
    then show ?thesis using m(1) 1 2 3 by (simp add: is_ws_def)
  qed
qed

lemma dumps_item_KStr:
  "dumps_item (KStr k, t) = DQ # concat (map escape_char k) @ DQ # 0x3A # 0x20 # t"
  by (simp add: dumps_item_def key_str_def encode_basestring_ascii_def ascii_lits)

lemma parse_object_items:
  assumes "kvs \<noteq> []"
    and "\<forall>kv\<in>set kvs. plain_str (fst kv) \<and> parses fr fo (snd kv)"
    and "sum_list (map (\<lambda>kv. Suc (cost (snd kv))) kvs) \<le> n"
  shows "parse_object fo n
           (join [0x2C, 0x20] (map (\<lambda>kv. dumps_item (KStr (fst kv), json_dumps fr (snd kv))) kvs)
              @ 0x7D # rest) = Some (kvs, rest)"
  using assms
proof (induction kvs arbitrary: n)
  case Nil
  then show ?case by simp
next
  case (Cons kv kvs)
  obtain k v where kv: "kv = (k, v)" by (cases kv) auto
  from Cons.prems(3) kv obtain m where m: "n = Suc m" "cost v \<le> m"
    "sum_list (map (\<lambda>kv. Suc (cost (snd kv))) kvs) \<le> m"
    by (cases n) auto
  from Cons.prems(2) kv have pk: "plain_str k" and pv: "parses fr fo v" by simp_all
  let ?item = "\<lambda>kv. dumps_item (KStr (fst kv), json_dumps fr (snd kv))"
  show ?case
  proof (cases "kvs = []")
    case True
    have 1: "scanstring (concat (map escape_char k) @ DQ # 0x3A # 0x20 # json_dumps fr v @ 0x7D # rest)
               = Some (k, 0x3A # 0x20 # json_dumps fr v @ 0x7D # rest)"
      using scanstring_encode [OF pk] by simp
    have 2: "parse_value fo m (json_dumps fr v @ 0x7D # rest) = Some (v, 0x7D # rest)"
      using parsesD [OF pv _ m(2)] by simp
    show ?thesis
      using True m(1) kv 1 2 dropWhile_ws_dumps [OF pv]
      by (simp add: dumps_item_KStr is_ws_def)
  next
    case False
    let ?tail = "join [0x2C, 0x20] (map ?item kvs) @ 0x7D # rest"
    have 1: "scanstring (concat (map escape_char k) @ DQ # 0x3A # 0x20 # json_dumps fr v
                 @ 0x2C # 0x20 # ?tail)
               = Some (k, 0x3A # 0x20 # json_dumps fr v @ 0x2C # 0x20 # ?tail)"
      using scanstring_encode [OF pk] by simp
    have 2: "parse_value fo m (json_dumps fr v @ 0x2C # 0x20 # ?tail) = Some (v, 0x2C # 0x20 # ?tail)"
      using parsesD [OF pv _ m(2)] by simp
    obtain y ys where ys: "kvs = y # ys" using False by (cases kvs) auto
    have "\<exists>t. ?tail = DQ # t"
      using ys by (cases ys) (auto simp add: dumps_item_KStr)
    then have 3: "dropWhile is_ws (0x20 # ?tail) = ?tail"
      by (auto simp add: is_ws_def)
    have 4: "parse_object fo m ?tail = Some (kvs, rest)"
      using Cons.IH [OF False _ m(3)] Cons.prems(2) by simp
    have "join [0x2C, 0x20] (map ?item (kv # kvs)) @ 0x7D # rest =
            DQ # concat (map escape_char k) @ DQ # 0x3A # 0x20 # json_dumps fr v
              @ 0x2C # 0x20 # ?tail"
      using False kv by (simp add: join_Cons dumps_item_KStr)
    then show ?thesis
      using m(1) kv 1 2 3 4 dropWhile_ws_dumps [OF pv]
      by (simp add: is_ws_def)
  qed
qed

lemma dict_set_fresh: "k \<notin> fst ` set d \<Longrightarrow> dict_set d k v = d @ [(k, v)]"
  by (induction d) auto

lemma dict_of_pairs_aux:
  assumes "distinct (map fst pairs)" and "KStr ` fst ` set pairs \<inter> fst ` set acc = {}"
  shows "foldl (\<lambda>d kv. dict_set d (KStr (fst kv)) (snd kv)) acc pairs =
           acc @ map (\<lambda>kv. (KStr (fst kv), snd kv)) pairs"
  using assms
proof (induction pairs arbitrary: acc)
  case Nil
  show ?case by simp
next
  case (Cons p pairs)
  have f: "KStr (fst p) \<notin> fst ` set acc" using Cons.prems(2) by auto
  have "KStr ` fst ` set pairs \<inter> fst ` set (acc @ [(KStr (fst p), snd p)]) = {}"
    using Cons.prems by auto
  with Cons.IH [of "acc @ [(KStr (fst p), snd p)]"] Cons.prems(1) f
  show ?case by (simp add: dict_set_fresh)
qed

lemma dict_of_pairs_distinct:
  "distinct (map fst pairs) \<Longrightarrow>
     dict_of_pairs pairs = map (\<lambda>kv. (KStr (fst kv), snd kv)) pairs"
  using dict_of_pairs_aux [of pairs "[]"] by (simp add: dict_of_pairs_def)

lemma parses_atoms:
  "parses fr fo PyNone" "parses fr fo (PyBool b)" "parses fr fo (PyInt i)"
proof -
  show "parses fr fo PyNone"
    unfolding parses_def
  proof (intro conjI allI impI)
    show "\<exists>c cs. json_dumps fr PyNone = c # cs \<and> value_start c"
      by (simp add: ascii_lits value_start_def)
    fix n rest assume "cost PyNone \<le> n"
    then obtain m where "n = Suc m" by (cases n) auto
    then show "parse_value fo n (json_dumps fr PyNone @ rest) = Some (PyNone, rest)"
      by (simp add: ascii_lits)
  qed
  show "parses fr fo (PyBool b)"
    unfolding parses_def
  proof (intro conjI allI impI)
    show "\<exists>c cs. json_dumps fr (PyBool b) = c # cs \<and> value_start c"
      by (simp add: ascii_lits value_start_def)
    fix n rest assume "cost (PyBool b) \<le> n"
    then obtain m where "n = Suc m" by (cases n) auto
    then show "parse_value fo n (json_dumps fr (PyBool b) @ rest) = Some (PyBool b, rest)"
      by (cases b) (simp_all add: ascii_lits)
  qed
  obtain c cs where c: "int_repr i = c # cs" "c = 0x2D \<or> is_digit c"
    using int_repr_start [of i] by blast
  show "parses fr fo (PyInt i)"
    unfolding parses_def
  proof (intro conjI allI impI)
    show "\<exists>c cs. json_dumps fr (PyInt i) = c # cs \<and> value_start c"
      using c by (auto simp add: value_start_def)
    fix n rest assume d: "delimited rest" and "cost (PyInt i) \<le> n"
    then obtain m where m: "n = Suc m" by (cases n) auto
    have "match_number fo (c # cs @ rest) = Some (PyInt i, rest)"
      using match_int_repr [OF d, of fo i] c(1) by simp
    then show "parse_value fo n (json_dumps fr (PyInt i) @ rest) = Some (PyInt i, rest)"
      using m c by (auto simp add: ascii_lits is_digit_def)
  qed
qed

lemma no_number:
  "match_number fo (78 # s) = None" "match_number fo (73 # s) = None"
  "match_number fo (0x2D # 73 # s) = None"
  by (simp_all add: match_number_def NUMBER_RE_def match_integer_def is_digit_def)

lemma parses_float:
  assumes "plain_float fr fo x"
  shows "parses fr fo (PyFloat x)"
proof (cases x)
  case (Finite r)
  with assms have t: "float_token (fr r)" and b: "fo (fr r) = Finite r"
    by (simp_all add: plain_float_def)
  obtain c cs where c: "fr r = c # cs" "c = 0x2D \<or> is_digit c"
    using float_token_start [OF t] by blast
  show ?thesis
    unfolding parses_def
  proof (intro conjI allI impI)
    show "\<exists>c cs. json_dumps fr (PyFloat x) = c # cs \<and> value_start c"
      using c Finite by (auto simp add: value_start_def floatstr_def)
    fix n rest assume d: "delimited rest" and "cost (PyFloat x) \<le> n"
    then obtain m where m: "n = Suc m" by (cases n) auto
    have "match_number fo (c # cs @ rest) = Some (PyFloat (Finite r), rest)"
      using match_float [OF d t, of fo] c(1) b by simp
    then show "parse_value fo n (json_dumps fr (PyFloat x) @ rest) = Some (PyFloat x, rest)"
      using m c Finite by (auto simp add: ascii_lits is_digit_def floatstr_def)
  qed
next
  case PosInf
  show ?thesis
    unfolding parses_def
  proof (intro conjI allI impI)
    show "\<exists>c cs. json_dumps fr (PyFloat x) = c # cs \<and> value_start c"
      using PosInf by (simp add: ascii_lits value_start_def floatstr_def)
    fix n rest assume "cost (PyFloat x) \<le> n"
    then obtain m where "n = Suc m" by (cases n) auto
    then show "parse_value fo n (json_dumps fr (PyFloat x) @ rest) = Some (PyFloat x, rest)"
      using PosInf by (simp add: ascii_lits floatstr_def no_number)
  qed
next
  case NegInf
  show ?thesis
    unfolding parses_def
  proof (intro conjI allI impI)
    show "\<exists>c cs. json_dumps fr (PyFloat x) = c # cs \<and> value_start c"
      using NegInf by (simp add: ascii_lits value_start_def floatstr_def)
    fix n rest assume "cost (PyFloat x) \<le> n"
    then obtain m where "n = Suc m" by (cases n) auto
    then show "parse_value fo n (json_dumps fr (PyFloat x) @ rest) = Some (PyFloat x, rest)"
      using NegInf by (simp add: ascii_lits floatstr_def no_number)
  qed
next
  case NaN
  with assms show ?thesis by (simp add: plain_float_def)
qed

lemma parses_str: "plain_str s \<Longrightarrow> parses fr fo (PyStr s)"
  unfolding parses_def
proof (intro conjI allI impI)
  show "\<exists>c cs. json_dumps fr (PyStr s) = c # cs \<and> value_start c"
    by (simp add: encode_basestring_ascii_def value_start_def)
  fix n rest assume p: "plain_str s" and "cost (PyStr s) \<le> n"
  then obtain m where m: "n = Suc m" by (cases n) auto
  show "parse_value fo n (json_dumps fr (PyStr s) @ rest) = Some (PyStr s, rest)"
    using m scanstring_encode [OF p, of rest] by (simp add: encode_basestring_ascii_def)
qed

lemma parses_list:
  assumes "\<forall>x\<in>set xs. parses fr fo x"
  shows "parses fr fo (PyList xs)"
  unfolding parses_def
proof (intro conjI allI impI)
  show "\<exists>c cs. json_dumps fr (PyList xs) = c # cs \<and> value_start c"
    by (simp add: ascii_lits value_start_def)
  fix n rest assume "cost (PyList xs) \<le> n"
  then obtain m where m: "n = Suc m" "sum_list (map Suc (map cost xs)) \<le> m"
    by (cases n) auto
  show "parse_value fo n (json_dumps fr (PyList xs) @ rest) = Some (PyList xs, rest)"
  proof (cases "xs = []")
    case True
    then show ?thesis using m(1) by (simp add: ascii_lits is_ws_def)
  next
    case False
    let ?body = "join [0x2C, 0x20] (map (json_dumps fr) xs) @ 0x5D # rest"
    obtain y ys where xs: "xs = y # ys" using False by (cases xs) auto
    from assms xs have "parses fr fo y" by simp
    then obtain c cs where c: "json_dumps fr y = c # cs" "value_start c"
      using parses_start by blast
    have "?body = json_dumps fr y @
            (if ys = [] then [] else [0x2C, 0x20] @ join [0x2C, 0x20] (map (json_dumps fr) ys))
            @ 0x5D # rest"
      using xs by (cases ys) auto
    then obtain t where t: "?body = c # t" using c(1) by simp
    have 1: "parse_array fo m (c # t) = Some (xs, rest)"
      using parse_array_items [OF False assms m(2), of rest] t by simp
    show ?thesis
      using m(1) t 1 value_start_facts [OF c(2)]
      by (simp add: ascii_lits)
  qed
qed

lemma parses_dict:
  assumes "\<forall>kv\<in>set kvs. plain_key (fst kv) \<and> parses fr fo (snd kv)"
    and "distinct (map fst kvs)"
  shows "parses fr fo (PyDict kvs)"
  unfolding parses_def
proof (intro conjI allI impI)
  show "\<exists>c cs. json_dumps fr (PyDict kvs) = c # cs \<and> value_start c"
    by (simp add: ascii_lits value_start_def)
  fix n rest assume "cost (PyDict kvs) \<le> n"
  then obtain m where m: "n = Suc m" "sum_list (map (\<lambda>kv. Suc (cost (snd kv))) kvs) \<le> m"
    by (cases n) (auto simp add: comp_def)
  define pairs where "pairs = map (\<lambda>kv. (key_str (fst kv), snd kv)) kvs"
  have keys: "\<forall>kv\<in>set kvs. fst kv = KStr (key_str (fst kv)) \<and> plain_str (key_str (fst kv))"
    using assms(1) by (auto simp add: plain_key_def key_str_def split: pykey.splits)
  have restored: "map (\<lambda>kv. (KStr (fst kv), snd kv)) pairs = kvs"
    unfolding pairs_def using keys by (induction kvs) auto
  have "map fst kvs = map KStr (map fst pairs)"
    unfolding pairs_def using keys by (induction kvs) auto
  with assms(2) have "distinct (map KStr (map fst pairs))" by simp
  then have dist: "distinct (map fst pairs)"
    unfolding distinct_map [of KStr "map fst pairs"] by blast
  have ok: "\<forall>kv\<in>set pairs. plain_str (fst kv) \<and> parses fr fo (snd kv)"
    unfolding pairs_def using keys assms(1) by auto
  have cost: "sum_list (map (\<lambda>kv. Suc (cost (snd kv))) pairs) \<le> m"
    unfolding pairs_def using m(2) by (simp add: comp_def)
  have rendered: "map dumps_item (map (map_prod id (json_dumps fr)) kvs) =
              map (\<lambda>kv. dumps_item (KStr (fst kv), json_dumps fr (snd kv))) pairs"
    unfolding pairs_def using keys by (induction kvs) (auto simp add: dumps_item_def)
  show "parse_value fo n (json_dumps fr (PyDict kvs) @ rest) = Some (PyDict kvs, rest)"
  proof (cases "kvs = []")
    case True
    then show ?thesis using m(1) by (simp add: ascii_lits is_ws_def)
  next
    case False
    then have ne: "pairs \<noteq> []" by (simp add: pairs_def)
    let ?body = "join [0x2C, 0x20] (map (\<lambda>kv. dumps_item (KStr (fst kv), json_dumps fr (snd kv))) pairs)
                   @ 0x7D # rest"
    obtain y ys where ys: "pairs = y # ys" using ne by (cases pairs) auto
    have "\<exists>t. ?body = DQ # t"
      using ys by (cases ys) (auto simp add: dumps_item_KStr)
    then obtain t where t: "?body = DQ # t" by blast
    have 1: "parse_object fo m (DQ # t) = Some (pairs, rest)"
      using parse_object_items [OF ne ok cost, of rest] t by simp
    show ?thesis
      using m(1) t 1 rendered restored dict_of_pairs_distinct [OF dist]
      by (simp add: ascii_lits is_ws_def)
  qed
qed

lemma plain_parses: "plain fr fo v \<Longrightarrow> parses fr fo v"
proof (induction v)
  case (PyList xs)
  then show ?case by (intro parses_list) (auto simp add: list_all_iff)
next
  case (PyDict kvs)
  have "\<forall>kv\<in>set kvs. plain_key (fst kv) \<and> parses fr fo (snd kv)"
  proof
    fix kv assume m: "kv \<in> set kvs"
    obtain k v where kv: "kv = (k, v)" by (cases kv) auto
    from PyDict.prems m kv have "plain_key k" "plain fr fo v" by (auto simp add: list_all_iff)
    moreover from PyDict.IH [of kv v] m kv \<open>plain fr fo v\<close> have "parses fr fo v" by simp
    ultimately show "plain_key (fst kv) \<and> parses fr fo (snd kv)" using kv by simp
  qed
  moreover from PyDict.prems have "distinct (map fst kvs)" by simp
  ultimately show ?case by (rule parses_dict)
qed (auto intro: parses_atoms parses_str parses_float)

lemma cost_join:
  assumes "\<forall>x\<in>set xs. f x \<le> length (g x)"
  shows "sum_list (map Suc (map f xs)) \<le> Suc (length (join [0x2C, 0x20] (map g xs)))"
  using assms
proof (induction xs)
  case Nil
  show ?case by simp
next
  case (Cons x xs)
  show ?case
  proof (cases "xs = []")
    case True
    with Cons.prems show ?thesis by simp
  next
    case False
    then have "join [0x2C, 0x20] (map g (x # xs)) = g x @ [0x2C, 0x20] @ join [0x2C, 0x20] (map g xs)"
      by (simp add: join_Cons)
    with Cons show ?thesis by simp
  qed
qed

lemma cost_le_length: "plain fr fo v \<Longrightarrow> cost v \<le> length (json_dumps fr v)"
proof (induction v)
  case (PyInt i)
  show ?case using int_repr_start [of i] by auto
next
  case (PyFloat x)
  then have "parses fr fo (PyFloat x)" by (intro parses_float) simp
  from parses_start [OF this] show ?case by auto
next
  case (PyList xs)
  then have "\<forall>x\<in>set xs. cost x \<le> length (json_dumps fr x)" by (simp add: list_all_iff)
  from cost_join [OF this] show ?case by (simp add: ascii_lits)
next
  case (PyDict kvs)
  have "\<forall>kv\<in>set kvs. cost (snd kv) \<le> length (dumps_item (fst kv, json_dumps fr (snd kv)))"
  proof
    fix kv assume m: "kv \<in> set kvs"
    obtain k v where kv: "kv = (k, v)" by (cases kv) auto
    from PyDict.prems m kv have "plain fr fo v" by (auto simp add: list_all_iff)
    with PyDict.IH [of kv v] m kv have "cost v \<le> length (json_dumps fr v)" by simp
    then show "cost (snd kv) \<le> length (dumps_item (fst kv, json_dumps fr (snd kv)))"
      using kv by (simp add: dumps_item_def)
  qed
  from cost_join [OF this]
  show ?case by (simp add: ascii_lits comp_def map_prod_def case_prod_beta)
qed (simp_all add: ascii_lits encode_basestring_ascii_def)

lemma json_roundtrip: "plain fr fo v \<Longrightarrow> json_loads fo (json_dumps fr v) = Some v"
proof -
  assume p: "plain fr fo v"
  then have ps: "parses fr fo v" by (rule plain_parses)
  from parsesD [OF ps _ cost_le_length [OF p], of "[]"]
  have "parse_value fo (length (json_dumps fr v)) (json_dumps fr v) = Some (v, [])" by simp
  moreover have "dropWhile is_ws (json_dumps fr v) = json_dumps fr v"
    using dropWhile_ws_dumps [OF ps, of "[]"] by simp
  ultimately show ?thesis by (simp add: json_loads_def)
qed

text \<open>
  What \<open>json_dumps\<close> writes is ASCII text, provided the renderings of the floats are.
\<close>

lemma hex_digit_ascii: "hex_digit n < 128"
proof -
  have "n mod 16 < 16" by simp
  then show ?thesis by (auto simp add: hex_digit_def Let_def)
qed

lemma escape_char_ascii: "ascii_only (escape_char c)"
  by (simp add: escape_char_def u_escape_def hex4_def hex_digit_ascii)

lemma encode_basestring_ascii_only: "ascii_only (encode_basestring_ascii s)"
  by (induction s) (simp_all add: encode_basestring_ascii_def escape_char_ascii)

lemma int_repr_ascii: "ascii_only (int_repr i)"
proof -
  have "ascii_only (int_digits n)" for n
    using int_digits_all_digits [of n] by (auto simp add: ascii_only_def is_digit_def)
  then show ?thesis by (simp add: int_repr_def)
qed

lemma join_ascii:
  assumes "\<forall>x\<in>set xs. ascii_only x"
  shows "ascii_only (join [0x2C, 0x20] xs)"
  using assms by (induction "[0x2C, 0x20 :: nat]" xs rule: join.induct) simp_all

lemma dumps_item_ascii: "ascii_only t \<Longrightarrow> ascii_only (dumps_item (k, t))"
  by (simp add: dumps_item_def encode_basestring_ascii_only ascii_lits)

lemma dumps_ascii: "plain fr fo v \<Longrightarrow> ascii_only (json_dumps fr v)"
proof (induction v)
  case (PyFloat x)
  then show ?case
    by (cases x) (simp_all add: plain_float_def floatstr_def float_token_ascii ascii_lits)
next
  case (PyList xs)
  then have "\<forall>t\<in>set (map (json_dumps fr) xs). ascii_only t" by (auto simp add: list_all_iff)
  from join_ascii [OF this] show ?case by (simp add: ascii_lits)
next
  case (PyDict kvs)
  have "\<forall>t\<in>set (map dumps_item (map (map_prod id (json_dumps fr)) kvs)). ascii_only t"
  proof
    fix t assume "t \<in> set (map dumps_item (map (map_prod id (json_dumps fr)) kvs))"
    then obtain k v where kv: "(k, v) \<in> set kvs" "t = dumps_item (k, json_dumps fr v)"
      by auto
    from PyDict.prems kv(1) have "plain fr fo v" by (auto simp add: list_all_iff)
    with PyDict.IH [of "(k, v)" v] kv(1) have "ascii_only (json_dumps fr v)" by simp
    with kv(2) show "ascii_only t" by (simp add: dumps_item_ascii)
  qed
  from join_ascii [OF this] show ?case by (simp add: ascii_lits)
qed (simp_all add: ascii_lits int_repr_ascii encode_basestring_ascii_only)

lemma ascii_utf8: "ascii_only s \<Longrightarrow> utf8_encodable s"
  by (auto simp add: ascii_only_def utf8_encodable_def high_surrogate_def low_surrogate_def)

lemma text_parts_ascii: "ascii_only (json_dumps fr (text_parts t))"
  by (simp add: text_parts_def ascii_lits dumps_item_ascii encode_basestring_ascii_only)


section \<open>The window of the history store\<close>

lemma sqlite_order_by_valid: "orders_by_timestamp_desc sqlite_order_by"
proof -
  have "sorted_wrt (\<lambda>a b. r_timestamp b \<le> r_timestamp a) (sort_key (\<lambda>r. - int (r_timestamp r)) rows)"
    for rows :: "hrow list"
  proof -
    have "sorted (map (\<lambda>r. - int (r_timestamp r)) (sort_key (\<lambda>r. - int (r_timestamp r)) rows))"
      by (rule sorted_sort_key)
    then show ?thesis by (simp add: sorted_map)
  qed
  then show ?thesis by (simp add: orders_by_timestamp_desc_def sqlite_order_by_def)
qed

lemma newest_first_order_by_valid: "orders_by_timestamp_desc newest_first_order_by"
proof -
  have "sorted_wrt (\<lambda>a b. r_timestamp b \<le> r_timestamp a)
          (rev (sort_key (\<lambda>r. int (r_timestamp r)) rows))" for rows :: "hrow list"
  proof -
    have "sorted (map (\<lambda>r. int (r_timestamp r)) (sort_key (\<lambda>r. int (r_timestamp r)) rows))"
      by (rule sorted_sort_key)
    then show ?thesis by (simp add: sorted_map sorted_wrt_rev)
  qed
  then show ?thesis by (simp add: orders_by_timestamp_desc_def newest_first_order_by_def)
qed

lemma order_by_increasing:
  assumes "orders_by_timestamp_desc ob" and "sorted_wrt (<) (map r_timestamp rows)"
  shows "ob rows = rev rows"
proof -
  let ?xs = "rev (ob rows)"
  from assms(1) have m: "mset (ob rows) = mset rows"
    and s: "sorted_wrt (\<lambda>a b. r_timestamp b \<le> r_timestamp a) (ob rows)"
    by (simp_all add: orders_by_timestamp_desc_def)
  from m have set: "set ?xs = set rows" by (metis mset_eq_setD set_rev)
  have d: "distinct (map r_timestamp rows)"
    using assms(2) by (simp add: strict_sorted_iff)
  have "mset (map r_timestamp ?xs) = mset (map r_timestamp rows)" using m by simp
  then have d': "distinct (map r_timestamp ?xs)"
    using d by (metis mset_eq_imp_distinct_iff)
  have s1: "sorted (map r_timestamp rows)" using assms(2) by (simp add: strict_sorted_iff)
  have s2: "sorted (map r_timestamp ?xs)" using s by (simp add: sorted_map sorted_wrt_rev)
  have inj: "inj_on r_timestamp (set ?xs \<union> set rows)"
    using d set by (simp add: distinct_map)
  from map_sorted_distinct_set_unique [OF inj s2 d' s1 d set]
  have "?xs = rows" .
  then show ?thesis by (metis rev_rev_ident)
qed

lemma load_rows_written:
  assumes "list_all2 (written fr) rows ms" and "\<forall>m\<in>set ms. plain fr fo (m_parts m)"
  shows "load_rows fo rows = Some (map (\<lambda>m. (m_role m, m_parts m)) ms)"
  using assms
  by (induction rows ms rule: list_all2_induct) (auto simp add: written_def json_roundtrip)

lemma add_history:
  assumes "add_message_to_history fr now d0 u r p = Some d"
  shows "history d =
           history d0 @ [\<lparr>r_id = Suc (last_id d0), r_user_id = u, r_role = r,
                          r_parts = json_dumps fr p, r_timestamp = now\<rparr>]"
    "user_settings d = user_settings d0" "last_id d = Suc (last_id d0)"
  using assms by (auto simp add: add_message_to_history_def Let_def split: if_splits)

lemma add_succeeds:
  assumes "sqlite_integer u" and "utf8_encodable r" and "utf8_encodable (json_dumps fr p)"
  shows "add_message_to_history fr now d0 u r p =
           Some (d0\<lparr>history := history d0 @
                       [\<lparr>r_id = Suc (last_id d0), r_user_id = u, r_role = r,
                         r_parts = json_dumps fr p, r_timestamp = now\<rparr>],
                    last_id := Suc (last_id d0)\<rparr>)"
  using assms by (simp add: add_message_to_history_def Let_def)


lemma roles_encodable: "utf8_encodable (ascii ''user'')" "utf8_encodable (ascii ''model'')"
  by (simp_all add: utf8_encodable_def ascii_def high_surrogate_def low_surrogate_def)

lemma add_text_turn:
  assumes "sqlite_integer u" and "r = ascii ''user'' \<or> r = ascii ''model''"
  shows "add_message_to_history fr now d0 u r (text_parts t) =
           Some (d0\<lparr>history := history d0 @
                       [\<lparr>r_id = Suc (last_id d0), r_user_id = u, r_role = r,
                         r_parts = json_dumps fr (text_parts t), r_timestamp = now\<rparr>],
                    last_id := Suc (last_id d0)\<rparr>)"
  using assms roles_encodable ascii_utf8 [OF text_parts_ascii]
  by (intro add_succeeds) auto

lemma append_all_written:
  assumes "append_all fr d0 msgs = Some d"
  shows "\<exists>rows. history d = history d0 @ rows \<and> list_all2 (written fr) rows msgs"
  using assms
proof (induction msgs arbitrary: d0)
  case Nil
  then show ?case by simp
next
  case (Cons m msgs)
  from Cons.prems obtain d1 where
    a: "add_message_to_history fr (m_time m) d0 (m_user_id m) (m_role m) (m_parts m) = Some d1"
    and r: "append_all fr d1 msgs = Some d"
    by (auto split: option.splits)
  from Cons.IH [OF r] obtain rows where
    rows: "history d = history d1 @ rows" "list_all2 (written fr) rows msgs"
    by blast
  let ?r = "\<lparr>r_id = Suc (last_id d0), r_user_id = m_user_id m, r_role = m_role m,
                    r_parts = json_dumps fr (m_parts m), r_timestamp = m_time m\<rparr>"
  have "history d = history d0 @ ?r # rows"
    using rows(1) add_history(1) [OF a] by simp
  moreover have "list_all2 (written fr) (?r # rows) (m # msgs)"
    using rows(2) by (simp add: written_def)
  ultimately show ?case by blast
qed

lemma append_all_settings:
  "append_all fr d0 msgs = Some d \<Longrightarrow> user_settings d = user_settings d0"
proof (induction msgs arbitrary: d0)
  case Nil
  then show ?case by simp
next
  case (Cons m msgs)
  from Cons.prems obtain d1 where
    a: "add_message_to_history fr (m_time m) d0 (m_user_id m) (m_role m) (m_parts m) = Some d1"
    and r: "append_all fr d1 msgs = Some d"
    by (auto split: option.splits)
  from Cons.IH [OF r] add_history(2) [OF a] show ?case by simp
qed

lemma append_all_succeeds:
  assumes "\<forall>m\<in>set msgs. sqlite_integer (m_user_id m) \<and> utf8_encodable (m_role m) \<and>
             plain fr fo (m_parts m)"
  shows "\<exists>d. append_all fr d0 msgs = Some d"
  using assms
proof (induction msgs arbitrary: d0)
  case Nil
  show ?case by simp
next
  case (Cons m msgs)
  from Cons.prems have "sqlite_integer (m_user_id m)" "utf8_encodable (m_role m)"
    "utf8_encodable (json_dumps fr (m_parts m))"
    using ascii_utf8 [OF dumps_ascii [of fr fo "m_parts m"]] by simp_all
  from add_succeeds [OF this] Cons.IH Cons.prems show ?case by simp
qed

lemma written_filter:
  assumes "list_all2 (written fr) rows ms"
  shows "list_all2 (written fr) (filter (\<lambda>r. r_user_id r = u) rows)
           (filter (\<lambda>m. m_user_id m = u) ms)"
  using assms
  by (induction rows ms rule: list_all2_induct) (auto simp add: written_def)

lemma written_times:
  "list_all2 (written fr) rows ms \<Longrightarrow> map r_timestamp rows = map m_time ms"
  by (induction rows ms rule: list_all2_induct) (auto simp add: written_def)

text \<open>
  When the turns of a user carry strictly increasing timestamps, every engine returns the
  same rows, and the window is the last \<open>limit\<close> appended turns of that user, oldest first.
  (The appends succeed when the user ids are 64-bit integers and the roles have a UTF-8
  encoding, see \<open>append_all_succeeds\<close>.)
\<close>

lemma window_of_appends:
  assumes "orders_by_timestamp_desc ob"
    and "append_all fr d0 msgs = Some d" and "sqlite_integer u"
    and "\<forall>r\<in>set (history d0). r_user_id r \<noteq> u"
    and "sorted_wrt (<) (map m_time (filter (\<lambda>m. m_user_id m = u) msgs))"
    and "\<forall>m\<in>set msgs. plain fr fo (m_parts m)"
    and "0 \<le> stored_limit d0 u"
  shows "get_history ob fo d u =
           Some (map (\<lambda>m. (m_role m, m_parts m))
                  (drop (length (filter (\<lambda>m. m_user_id m = u) msgs) - nat (stored_limit d0 u))
                     (filter (\<lambda>m. m_user_id m = u) msgs)))"
proof -
  let ?ms = "filter (\<lambda>m. m_user_id m = u) msgs"
  let ?L = "stored_limit d0 u"
  obtain rows where r: "history d = history d0 @ rows"
    "list_all2 (written fr) rows msgs" using append_all_written [OF assms(2)] by blast
  let ?rows = "filter (\<lambda>r. r_user_id r = u) rows"
  have f: "filter (\<lambda>r. r_user_id r = u) (history d) = ?rows"
    using r(1) assms(4) by (simp add: filter_empty_conv)
  have w: "list_all2 (written fr) ?rows ?ms" using written_filter [OF r(2)] .
  have "sorted_wrt (<) (map r_timestamp ?rows)" using written_times [OF w] assms(5) by simp
  from order_by_increasing [OF assms(1) this] have o: "ob ?rows = rev ?rows" .
  have l: "get_history_limit d u = Some ?L"
    using assms(3) append_all_settings [OF assms(2)]
    by (simp add: get_history_limit_def stored_limit_def)
  have len: "length ?rows = length ?ms" using w by (rule list_all2_lengthD)
  have sel: "rev (select_history ob d u ?L) = drop (length ?ms - nat ?L) ?rows"
    using assms(7) by (simp add: select_history_def f o sql_limit_def rev_take len)
  have "list_all2 (written fr) (drop (length ?ms - nat ?L) ?rows) (drop (length ?ms - nat ?L) ?ms)"
    using w by (rule list_all2_dropI)
  moreover have "\<forall>m\<in>set (drop (length ?ms - nat ?L) ?ms). plain fr fo (m_parts m)"
    using assms(6) by (meson in_set_dropD filter_is_subset subsetD)
  ultimately have "load_rows fo (drop (length ?ms - nat ?L) ?rows) =
      Some (map (\<lambda>m. (m_role m, m_parts m)) (drop (length ?ms - nat ?L) ?ms))"
    by (rule load_rows_written)
  then show ?thesis by (simp add: get_history_def l sel Let_def)
qed

lemma plain_text_parts: "plain_str t \<Longrightarrow> plain fr fo (text_parts t)"
  by (simp add: text_parts_def plain_key_def ascii_def high_surrogate_def low_surrogate_def)

lemma plain_ascii_examples:
  "plain fr fo (PyList [PyDict [(KStr (ascii ''text''), PyStr (ascii ''hi''))]])"
  "plain fr fo (PyList [PyDict [(KStr (ascii ''text''), PyStr (ascii ''ok''))]])"
  "plain fr fo (PyList [PyDict [(KStr (ascii ''1''), PyStr (ascii ''a''))]])"
  "plain fr fo (PyList [PyDict [(KStr (ascii ''text''), PyStr [0x1F600])]])"
  by (simp_all add: plain_key_def ascii_def high_surrogate_def low_surrogate_def)

lemma sqlite_integer_42: "sqlite_integer 42"
  by (simp add: sqlite_integer_def)

lemma same_second_rows:
  "history same_second_db =
     [\<lparr>r_id = 1, r_user_id = 42, r_role = ascii ''user'',
        r_parts = json_dumps example_float_repr
                    (PyList [PyDict [(KStr (ascii ''text''), PyStr (ascii ''hi''))]]),
        r_timestamp = 1000\<rparr>,
      \<lparr>r_id = 2, r_user_id = 42, r_role = ascii ''model'',
        r_parts = json_dumps example_float_repr
                    (PyList [PyDict [(KStr (ascii ''text''), PyStr (ascii ''ok''))]]),
        r_timestamp = 1000\<rparr>]"
  "get_history_limit same_second_db 42 = Some 12"
  by (simp_all add: same_second_db_def get_history_limit_def stored_limit_def
      sqlite_integer_def DEFAULT_HISTORY_LIMIT_def del: json_dumps.simps)

text \<open>
  The window of the table \<open>same_second_db\<close> under the two engines. The rows hold no float,
  so the window is the same for every \<open>parse_float\<close>.
\<close>

lemma same_second_window:
  "get_history sqlite_order_by fo same_second_db 42 =
     Some [(ascii ''model'', PyList [PyDict [(KStr (ascii ''text''), PyStr (ascii ''ok''))]]),
           (ascii ''user'', PyList [PyDict [(KStr (ascii ''text''), PyStr (ascii ''hi''))]])]"
  "get_history newest_first_order_by fo same_second_db 42 =
     Some [(ascii ''user'', PyList [PyDict [(KStr (ascii ''text''), PyStr (ascii ''hi''))]]),
           (ascii ''model'', PyList [PyDict [(KStr (ascii ''text''), PyStr (ascii ''ok''))]])]"
  by (simp_all add: get_history_def select_history_def same_second_rows sqlite_order_by_def
      newest_first_order_by_def sql_limit_def Let_def json_roundtrip [OF plain_ascii_examples(1)]
      json_roundtrip [OF plain_ascii_examples(2)] del: json_dumps.simps)

text \<open>
  C1 at the input where the code departs from it: user 42, with the default limit of 12,
  sends the text "hi" and is answered "ok". \<open>handle_message\<close> writes both turns one after the
  other, here within the same second, so the two rows carry the same timestamp. The query
  orders by timestamp only; with SQLite's order for equal timestamps, the window read back
  has the two turns the wrong way round: the model's answer comes before the user's message.
\<close>

theorem same_second_turns_come_back_reversed:
  "db (snd (handle_message example_env 42 (ascii ''hi'') example_world)) = same_second_db \<and>
   get_history sqlite_order_by example_parse_float same_second_db 42 =
     Some [(ascii ''model'', PyList [PyDict [(KStr (ascii ''text''), PyStr (ascii ''ok''))]]),
           (ascii ''user'', PyList [PyDict [(KStr (ascii ''text''), PyStr (ascii ''hi''))]])]"
proof
  have c: "\<not> on_cooldown example_env 42 ''text'' example_world"
    by (simp add: on_cooldown_def is_user_on_cooldown_def cooldown_period_def COOLDOWNS_def
        example_env_def example_world_def)
  have b: "ascii ''hi'' \<noteq> ASK_BUTTON" "ascii ''hi'' \<noteq> FACT_BUTTON"
    "ascii ''hi'' \<noteq> SETTINGS_BUTTON"
    by (simp_all add: ASK_BUTTON_def FACT_BUTTON_def SETTINGS_BUTTON_def ascii_def)
  have h: "get_history sqlite_order_by example_parse_float init_db 42 = Some []"
    by (simp add: get_history_def get_history_limit_def sqlite_integer_def select_history_def
        sql_limit_def init_db_def Let_def sqlite_order_by_def)
  have e: "order_by example_env = sqlite_order_by" "model_loaded example_env"
    "chat_action example_env = None" "generate example_env = Inr (ascii ''ok'')"
    "telegram example_env = (\<lambda>_. None)" "db_clock1 example_env = 1000"
    "db_clock2 example_env = 1000" "db example_world = init_db"
    "py_float example_env = example_parse_float"
    "py_float_repr example_env = example_float_repr"
    by (simp_all add: example_env_def example_world_def)
  have s: "store_turns example_env 42 (ascii ''hi'') (ascii ''ok'') w =
             (Inr (), w\<lparr>db := same_second_db\<rparr>)" if "db w = init_db" for w
    using that
    apply (simp add: store_turns_def e add_text_turn sqlite_integer_42 del: json_dumps.simps)
    apply (simp add: same_second_db_def init_db_def text_parts_def del: json_dumps.simps)
    done
  show "db (snd (handle_message example_env 42 (ascii ''hi'') example_world)) = same_second_db"
    using c b
    by (simp add: handle_message_def handle_message_try_def answer_def send_def e h s
        record_event_def mark_def Let_def)
  show "get_history sqlite_order_by example_parse_float same_second_db 42 =
     Some [(ascii ''model'', PyList [PyDict [(KStr (ascii ''text''), PyStr (ascii ''ok''))]]),
           (ascii ''user'', PyList [PyDict [(KStr (ascii ''text''), PyStr (ascii ''hi''))]])]"
    by (simp add: get_history_def select_history_def same_second_rows sqlite_order_by_def
        sql_limit_def Let_def json_roundtrip [OF plain_ascii_examples(1)]
        json_roundtrip [OF plain_ascii_examples(2)] del: json_dumps.simps)
qed

text \<open>
  C7 at the same input: the query never mentions the id column, so nothing in the code decides
  the order of two turns with the same timestamp. Two engines that both carry out
  \<^verbatim>\<open>ORDER BY timestamp DESC\<close> correctly return different windows for the same table, and the
  one that SQLite produces is not the insertion order.
\<close>

theorem tie_order_left_to_engine:
  "orders_by_timestamp_desc sqlite_order_by \<and> orders_by_timestamp_desc newest_first_order_by \<and>
   get_history sqlite_order_by example_parse_float same_second_db 42 =
     Some [(ascii ''model'', PyList [PyDict [(KStr (ascii ''text''), PyStr (ascii ''ok''))]]),
           (ascii ''user'', PyList [PyDict [(KStr (ascii ''text''), PyStr (ascii ''hi''))]])] \<and>
   get_history newest_first_order_by example_parse_float same_second_db 42 =
     Some [(ascii ''user'', PyList [PyDict [(KStr (ascii ''text''), PyStr (ascii ''hi''))]]),
           (ascii ''model'', PyList [PyDict [(KStr (ascii ''text''), PyStr (ascii ''ok''))]])]"
proof (intro conjI)
  show "orders_by_timestamp_desc sqlite_order_by" by (rule sqlite_order_by_valid)
  show "orders_by_timestamp_desc newest_first_order_by" by (rule newest_first_order_by_valid)
  show "get_history sqlite_order_by example_parse_float same_second_db 42 =
     Some [(ascii ''model'', PyList [PyDict [(KStr (ascii ''text''), PyStr (ascii ''ok''))]]),
           (ascii ''user'', PyList [PyDict [(KStr (ascii ''text''), PyStr (ascii ''hi''))]])]"
    by (simp add: get_history_def select_history_def same_second_rows sqlite_order_by_def
        sql_limit_def Let_def json_roundtrip [OF plain_ascii_examples(1)]
        json_roundtrip [OF plain_ascii_examples(2)] del: json_dumps.simps)
  show "get_history newest_first_order_by example_parse_float same_second_db 42 =
     Some [(ascii ''user'', PyList [PyDict [(KStr (ascii ''text''), PyStr (ascii ''hi''))]]),
           (ascii ''model'', PyList [PyDict [(KStr (ascii ''text''), PyStr (ascii ''ok''))]])]"
    by (simp add: get_history_def select_history_def same_second_rows newest_first_order_by_def
        sql_limit_def Let_def json_roundtrip [OF plain_ascii_examples(1)]
        json_roundtrip [OF plain_ascii_examples(2)] del: json_dumps.simps)
qed






lemma load_rows_total:
  assumes "\<forall>r\<in>set rows. json_loads fo (r_parts r) \<noteq> None"
  shows "load_rows fo rows =
           Some (map (\<lambda>r. (r_role r, the (json_loads fo (r_parts r)))) rows)"
  using assms by (induction rows) auto

lemma select_history_subset:
  assumes "orders_by_timestamp_desc ob"
  shows "set (select_history ob d0 u l) \<subseteq> set (history d0)"
proof -
  have "set (ob rows) = set rows" for rows
    using assms by (metis orders_by_timestamp_desc_def mset_eq_setD)
  then have "set (ob (filter (\<lambda>r. r_user_id r = u) (history d0))) \<subseteq> set (history d0)"
    by auto
  moreover have "set (sql_limit l xs) \<subseteq> set xs" for xs :: "hrow list"
    by (auto simp add: sql_limit_def dest: in_set_takeD)
  ultimately show ?thesis unfolding select_history_def by blast
qed





text \<open>
  Whatever the engine does with equal timestamps, the number of turns in the window is the
  smaller of the number of stored turns of the user and the limit, provided the limit is not
  negative.
\<close>

lemma window_size:
  assumes "orders_by_timestamp_desc ob" and "sqlite_integer u"
    and "\<forall>r\<in>set (history d0). json_loads fo (r_parts r) \<noteq> None"
    and "0 \<le> stored_limit d0 u"
  shows "\<exists>h. get_history ob fo d0 u = Some h \<and>
             length h = min (length (filter (\<lambda>r. r_user_id r = u) (history d0)))
                            (nat (stored_limit d0 u))"
proof -
  let ?fs = "filter (\<lambda>r. r_user_id r = u) (history d0)"
  let ?rows = "select_history ob d0 u (stored_limit d0 u)"
  have "mset (ob ?fs) = mset ?fs" using assms(1) by (simp add: orders_by_timestamp_desc_def)
  then have "length (ob ?fs) = length ?fs" by (rule mset_eq_length)
  then have n: "length ?rows = min (length ?fs) (nat (stored_limit d0 u))"
    using assms(4) by (simp add: select_history_def sql_limit_def min.commute)
  from select_history_subset [OF assms(1), of d0 u "stored_limit d0 u"] assms(3)
  have "\<forall>r\<in>set (rev ?rows). json_loads fo (r_parts r) \<noteq> None" by auto
  from load_rows_total [OF this]
  have "get_history ob fo d0 u =
          Some (map (\<lambda>r. (r_role r, the (json_loads fo (r_parts r)))) (rev ?rows))"
    using assms(2) by (simp add: get_history_def get_history_limit_def Let_def)
  with n show ?thesis by simp
qed

text \<open>
  A limit that was set is the limit that is read, and a user id or a limit outside the range
  of a 64-bit integer is refused.
\<close>

lemma limit_read_back:
  assumes "sqlite_integer user_id" and "sqlite_integer limit"
  shows "\<exists>d. set_history_limit d0 user_id limit = Some d \<and>
             get_history_limit d user_id = Some limit"
proof -
  have "signed_take_bit 63 limit = limit"
    using assms(2) by (intro signed_take_bit_int_eq_self) (simp_all add: sqlite_integer_def)
  then have "sint (word_of_int limit :: 64 word) = limit"
    by (simp add: sint_sbintrunc')
  with assms show ?thesis
    by (simp add: set_history_limit_def get_history_limit_def stored_limit_def)
qed

lemma out_of_range_refused:
  assumes "\<not> sqlite_integer user_id"
  shows "set_history_limit d0 user_id limit = None" "get_history_limit d0 user_id = None"
    "add_message_to_history fr now d0 user_id role parts = None"
    "get_history ob fo d0 user_id = None" "clear_history d0 user_id = None"
  using assms
  by (simp_all add: set_history_limit_def get_history_limit_def add_message_to_history_def
      get_history_def clear_history_def Let_def)

text \<open>
  With a limit of one, the window of the same table holds the user's message and not the
  model's answer, which was appended last: when the limit cuts through two turns of the
  same second, SQLite keeps the older one.
\<close>

lemma limit_cuts_same_second_pair:
  "get_history sqlite_order_by example_parse_float
     (same_second_db\<lparr>user_settings := [42 \<mapsto> 1]\<rparr>) 42 =
     Some [(ascii ''user'', PyList [PyDict [(KStr (ascii ''text''), PyStr (ascii ''hi''))]])]"
  by (simp add: get_history_def get_history_limit_def stored_limit_def sqlite_integer_def
      select_history_def same_second_rows sqlite_order_by_def
      sql_limit_def Let_def json_roundtrip [OF plain_ascii_examples(1)]
      del: json_dumps.simps)

end
